theory Spec2Isabelle
  imports Complex_Main "HOL-Library.Monad_Syntax" "HOL-Library.Log_Nat"
begin

section \<open>The host environment\<close>

text \<open>
  The generator of ecom-synth reads three things from outside its own code: the global
  stream behind \<^verbatim>\<open>Math.random()\<close>, the identifiers handed out by the uuid library
  and the wall clock with its calendar (\<^verbatim>\<open>Date\<close>). They are the fields of \<open>env\<close>.
  Numbers are integers (\<open>int\<close>) and reals. The arithmetic of \<^verbatim>\<open>randomFloat\<close>, of
  \<^verbatim>\<open>toFixed\<close>, of the funnel and engagement calculators, of the reach of a post metric
  and of the trigger count of a binding is rounded to doubles, operation by operation
  (section \<open>JavaScript numbers\<close>); the other arithmetic of the generators is exact.
  Instants are milliseconds since the epoch; \<^verbatim>\<open>formatDate\<close> (the ISO rendering of an
  instant) is not modelled, a timestamp field holds the instant itself. The clock is read
  as one instant \<open>now\<close> for the whole run.
\<close>

type_synonym uuid = nat

record env =
  random :: "nat \<Rightarrow> real"
  uuidv4 :: "nat \<Rightarrow> uuid"
  now :: int
  plusDays :: "int \<Rightarrow> int \<Rightarrow> int"
  getMonth :: "int \<Rightarrow> nat"
  getDay :: "int \<Rightarrow> nat"
  setHours :: "int \<Rightarrow> int \<Rightarrow> int \<Rightarrow> int \<Rightarrow> int"

text \<open>\<^verbatim>\<open>Math.random()\<close> returns a number in \<open>[0, 1)\<close>.\<close>

definition unit_interval :: "env \<Rightarrow> bool" where
  "unit_interval E = (\<forall>k. 0 \<le> random E k \<and> random E k < 1)"

section \<open>JavaScript numbers\<close>

text \<open>
  A JavaScript number is an IEEE 754 double. \<open>to_double\<close> rounds a real to the nearest
  double, to the even significand on a tie: the doubles around \<open>x\<close> are the multiples of
  \<open>ulp x\<close>, which is \<open>2 ^ (e - 52)\<close> in the binade \<open>2 ^ e \<le> |x| < 2 ^ (e + 1)\<close> and
  \<open>2 ^ - 1074\<close> below \<open>2 ^ - 1022\<close> (the subnormal range). \<open>exponent x\<close> is that \<open>e\<close>,
  read off the bit length of the integer part of \<open>|x|\<close> or of \<open>1 / |x|\<close>.
  \<open>to_double\<close> does not saturate; \<open>to_number\<close> does, at \<open>2 ^ 1024\<close>.
\<close>

definition round_half_even :: "real \<Rightarrow> int" where
  "round_half_even t =
     (let n = \<lfloor>t\<rfloor>; f = t - of_int n
      in if f < 1 / 2 then n else if 1 / 2 < f then n + 1 else if even n then n else n + 1)"

definition exponent :: "real \<Rightarrow> int" where
  "exponent x = (if 1 \<le> \<bar>x\<bar> then bitlen \<lfloor>\<bar>x\<bar>\<rfloor> - 1 else - bitlen (\<lceil>1 / \<bar>x\<bar>\<rceil> - 1))"

definition ulp :: "real \<Rightarrow> real" where
  "ulp x = 2 powi (max (exponent x) (- 1022) - 52)"

definition to_double :: "real \<Rightarrow> real" where
  "to_double x = (if x = 0 then 0 else ulp x * of_int (round_half_even (x / ulp x)))"

text \<open>
  A number that may not be finite. The division and the multiplication follow IEEE 754:
  a division by zero is an infinity, or \<^verbatim>\<open>NaN\<close> for \<open>0 / 0\<close>; an infinity times zero is
  \<^verbatim>\<open>NaN\<close>. The sign of zero is not modelled.
\<close>

datatype number = Finite real | Infinity | NegInfinity | NaN

definition to_number :: "real \<Rightarrow> number" where
  "to_number x =
     (let y = to_double x
      in if 2 ^ 1024 \<le> y then Infinity else if y \<le> - (2 ^ 1024) then NegInfinity else Finite y)"

definition js_div :: "real \<Rightarrow> real \<Rightarrow> number" where
  "js_div a b =
     (if b = 0 then (if a = 0 then NaN else if 0 < a then Infinity else NegInfinity)
      else to_number (a / b))"

fun number_sign :: "number \<Rightarrow> int" where
  "number_sign (Finite x) = (if x = 0 then 0 else if 0 < x then 1 else - 1)"
| "number_sign Infinity = 1"
| "number_sign NegInfinity = - 1"
| "number_sign NaN = 0"

fun js_mul :: "number \<Rightarrow> number \<Rightarrow> number" where
  "js_mul (Finite x) (Finite y) = to_number (x * y)"
| "js_mul NaN b = NaN"
| "js_mul a NaN = NaN"
| "js_mul a b =
     (if number_sign a * number_sign b = 0 then NaN
      else if 0 < number_sign a * number_sign b then Infinity else NegInfinity)"

section \<open>utils/helpers.js\<close>

text \<open>
  Every sampling helper takes the position \<open>r\<close> of the next unread number of the random
  stream and returns its result with the new position. \<^verbatim>\<open>generateId\<close> does the same on
  the uuid stream.
\<close>

definition Math_random :: "env \<Rightarrow> nat \<Rightarrow> real \<times> nat" where
  "Math_random E r = (random E r, r + 1)"

definition Math_round :: "real \<Rightarrow> int" where
  "Math_round x = \<lfloor>x + 1 / 2\<rfloor>"

definition generateId :: "env \<Rightarrow> nat \<Rightarrow> uuid \<times> nat" where
  "generateId E i = (uuidv4 E i, i + 1)"

text \<open>An index outside the array reads \<^verbatim>\<open>undefined\<close>, here \<open>None\<close>.\<close>

definition randomChoice :: "env \<Rightarrow> 'a list \<Rightarrow> nat \<Rightarrow> 'a option \<times> nat" where
  "randomChoice E array r =
     (let (u, r1) = Math_random E r;
          k = \<lfloor>u * real (length array)\<rfloor>
      in (if 0 \<le> k \<and> k < int (length array) then Some (array ! nat k) else None, r1))"

record 'a weighted =
  item :: 'a
  weight :: real

fun weightedScan :: "'a weighted list \<Rightarrow> real \<Rightarrow> 'a option" where
  "weightedScan [] rand = None"
| "weightedScan (w # rest) rand =
     (if rand - weight w \<le> 0 then Some (item w) else weightedScan rest (rand - weight w))"

text \<open>
  \<^verbatim>\<open>weightedChoice\<close>: the loop is \<open>weightedScan\<close>; when it falls through, the last
  item is read, which throws a TypeError (\<open>None\<close>) on an empty table.
\<close>

definition weightedChoice :: "env \<Rightarrow> 'a weighted list \<Rightarrow> nat \<Rightarrow> ('a \<times> nat) option" where
  "weightedChoice E weightedItems r =
     (let totalWeight = foldl (\<lambda>sum it. sum + weight it) 0 weightedItems;
          (u, r1) = Math_random E r
      in case weightedScan weightedItems (u * totalWeight) of
           Some x \<Rightarrow> Some (x, r1)
         | None \<Rightarrow> (if weightedItems = [] then None else Some (item (last weightedItems), r1)))"

definition randomInt :: "env \<Rightarrow> int \<Rightarrow> int \<Rightarrow> nat \<Rightarrow> int \<times> nat" where
  "randomInt E lo hi r =
     (let (u, r1) = Math_random E r in (\<lfloor>u * real_of_int (hi - lo + 1)\<rfloor> + lo, r1))"

text \<open>
  \<^verbatim>\<open>Math.random() * (max - min) + min\<close> in doubles. The bounds are numbers: a decimal
  literal of the source denotes the nearest double.
\<close>

definition randomFloat :: "env \<Rightarrow> real \<Rightarrow> real \<Rightarrow> nat \<Rightarrow> real \<times> nat" where
  "randomFloat E lo hi r =
     (let (u, r1) = Math_random E r;
          lo' = to_double lo;
          hi' = to_double hi
      in (to_double (to_double (u * to_double (hi' - lo')) + lo'), r1))"

definition randomBool :: "env \<Rightarrow> real \<Rightarrow> nat \<Rightarrow> bool \<times> nat" where
  "randomBool E probability r = (let (u, r1) = Math_random E r in (u < probability, r1))"

text \<open>\<^verbatim>\<open>new Date(x)\<close> drops the fraction of a millisecond, towards zero.\<close>

definition timeClip :: "real \<Rightarrow> int" where
  "timeClip x = (if 0 \<le> x then \<lfloor>x\<rfloor> else \<lceil>x\<rceil>)"

definition randomDate :: "env \<Rightarrow> int \<Rightarrow> int \<Rightarrow> nat \<Rightarrow> int \<times> nat" where
  "randomDate E start end r =
     (let (u, r1) = Math_random E r
      in (timeClip (real_of_int start + u * real_of_int (end - start)), r1))"

definition daysAgo :: "env \<Rightarrow> int \<Rightarrow> int" where
  "daysAgo E days = plusDays E (now E) (- days)"

text \<open>Appending \<^verbatim>\<open>undefined\<close> to a string appends its name.\<close>

fun generateHash :: "env \<Rightarrow> nat \<Rightarrow> nat \<Rightarrow> string \<times> nat" where
  "generateHash E 0 r = ([], r)"
| "generateHash E (Suc n) r =
     (let (c, r1) = randomChoice E ''abcdef0123456789'' r;
          (rest, r2) = generateHash E n r1
      in ((case c of Some ch \<Rightarrow> [ch] | None \<Rightarrow> ''undefined'') @ rest, r2))"

record rate_range =
  range_min :: real
  range_max :: real

definition calculateConversionRate :: "env \<Rightarrow> rate_range \<Rightarrow> nat \<Rightarrow> real \<times> nat" where
  "calculateConversionRate E baseRate r = randomFloat E (range_min baseRate) (range_max baseRate) r"

record funnelRates =
  engagementToDM :: rate_range
  dmToPhotoRequest :: rate_range
  photoRequestToReceived :: rate_range
  photoToTryon :: rate_range
  tryonToLinkClick :: rate_range
  linkClickToPurchase :: rate_range

definition CONFIG_funnelRates :: funnelRates where
  "CONFIG_funnelRates =
     \<lparr>engagementToDM = \<lparr>range_min = 0.02, range_max = 0.08\<rparr>,
      dmToPhotoRequest = \<lparr>range_min = 0.60, range_max = 0.85\<rparr>,
      photoRequestToReceived = \<lparr>range_min = 0.35, range_max = 0.55\<rparr>,
      photoToTryon = \<lparr>range_min = 0.80, range_max = 0.95\<rparr>,
      tryonToLinkClick = \<lparr>range_min = 0.40, range_max = 0.65\<rparr>,
      linkClickToPurchase = \<lparr>range_min = 0.15, range_max = 0.30\<rparr>\<rparr>"

text \<open>
  \<^verbatim>\<open>Number(x.toFixed(digits))\<close>: \<^verbatim>\<open>toFixed\<close> writes the sign and the integer \<open>n\<close> nearest to
  \<open>|x| * 10 ^ digits\<close> (the larger one on a tie) with a decimal point, \<^verbatim>\<open>Number\<close> reads
  the string back as the nearest double. From \<open>10 ^ 21\<close> on \<^verbatim>\<open>toFixed\<close> writes the number
  itself; \<^verbatim>\<open>NaN\<close> and the infinities are written by name and read back.
\<close>

definition toFixed :: "nat \<Rightarrow> real \<Rightarrow> real" where
  "toFixed digits x =
     (if 10 ^ 21 \<le> \<bar>x\<bar> then x
      else sgn x * to_double (real_of_int \<lfloor>\<bar>x\<bar> * 10 ^ digits + 1 / 2\<rfloor> / 10 ^ digits))"

definition toFixed2 :: "real \<Rightarrow> real" where
  "toFixed2 x = toFixed 2 x"

fun Number_toFixed2 :: "number \<Rightarrow> number" where
  "Number_toFixed2 (Finite x) = Finite (toFixed2 x)"
| "Number_toFixed2 x = x"

record funnelMetrics =
  total_triggers :: int
  total_dm_conversations :: int
  total_photo_requests :: int
  total_photos_received :: int
  total_generations :: int
  successful_generations :: int
  total_purchases :: int
  trigger_to_dm_rate :: number
  dm_to_photo_rate :: number
  photo_to_success_rate :: number
  overall_conversion_rate :: number

text \<open>
  \<open>stageCount\<close> is the expression that \<^verbatim>\<open>generateFunnelMetrics\<close> repeats for each
  stage: \<^verbatim>\<open>Math.round(previous * calculateConversionRate(rate))\<close>. The product is a
  double (for a rate in \<open>[0, 1]\<close> it is at most the previous count, so it does not
  overflow); \<^verbatim>\<open>Math.round\<close> of a double is exact. \<open>percentOf\<close> is the expression of
  the four percentage fields: \<^verbatim>\<open>Number(((part / whole) * 100).toFixed(2))\<close>.
\<close>

definition stageCount :: "env \<Rightarrow> int \<Rightarrow> rate_range \<Rightarrow> nat \<Rightarrow> int \<times> nat" where
  "stageCount E previous baseRate r =
     (let (rate, r1) = calculateConversionRate E baseRate r
      in (Math_round (to_double (real_of_int previous * rate)), r1))"

definition percentOf :: "int \<Rightarrow> int \<Rightarrow> number" where
  "percentOf part whole =
     Number_toFixed2 (js_mul (js_div (real_of_int part) (real_of_int whole)) (Finite 100))"

definition generateFunnelMetrics :: "env \<Rightarrow> int \<Rightarrow> funnelRates \<Rightarrow> nat \<Rightarrow> funnelMetrics \<times> nat" where
  "generateFunnelMetrics E totalTriggers rates r =
     (let (dmConversations, r1) = stageCount E totalTriggers (engagementToDM rates) r;
          (photoRequests, r2) = stageCount E dmConversations (dmToPhotoRequest rates) r1;
          (photosReceived, r3) = stageCount E photoRequests (photoRequestToReceived rates) r2;
          (tryonsCompleted, r4) = stageCount E photosReceived (photoToTryon rates) r3;
          (linkClicks, r5) = stageCount E tryonsCompleted (tryonToLinkClick rates) r4;
          (purchases, r6) = stageCount E linkClicks (linkClickToPurchase rates) r5
      in (\<lparr>total_triggers = totalTriggers,
           total_dm_conversations = dmConversations,
           total_photo_requests = photoRequests,
           total_photos_received = photosReceived,
           total_generations = photosReceived,
           successful_generations = tryonsCompleted,
           total_purchases = purchases,
           trigger_to_dm_rate =
             (if totalTriggers > 0 then percentOf dmConversations totalTriggers else Finite 0),
           dm_to_photo_rate =
             (if dmConversations > 0 then percentOf photosReceived dmConversations else Finite 0),
           photo_to_success_rate =
             (if photosReceived > 0 then percentOf tryonsCompleted photosReceived else Finite 0),
           overall_conversion_rate =
             (if totalTriggers > 0 then percentOf purchases totalTriggers else Finite 0)\<rparr>, r6))"

definition clamp :: "'a::linorder \<Rightarrow> 'a \<Rightarrow> 'a \<Rightarrow> 'a" where
  "clamp v lo hi = max lo (min hi v)"

definition roundTo4 :: "real \<Rightarrow> real" where
  "roundTo4 x = toFixed 4 x"

record engagementMetrics =
  impressions :: int
  reach :: int
  likes :: int
  comments :: int
  shares :: int
  saves :: int
  engagement_rate :: real

definition generateEngagementMetrics :: "env \<Rightarrow> int \<Rightarrow> nat \<Rightarrow> engagementMetrics \<times> nat" where
  "generateEngagementMetrics E reach0 r =
     (let (f1, r1) = randomFloat E 1.2 2.5 r;
          impressions0 = Math_round (to_double (real_of_int reach0 * f1));
          (engagementRate, r2) = randomFloat E 0.01 0.15 r1;
          totalEngagement = Math_round (to_double (real_of_int reach0 * engagementRate));
          (f3, r3) = randomFloat E 0.6 0.8 r2;
          likes0 = Math_round (to_double (real_of_int totalEngagement * f3));
          (f4, r4) = randomFloat E 0.05 0.15 r3;
          comments0 = Math_round (to_double (real_of_int totalEngagement * f4));
          (f5, r5) = randomFloat E 0.02 0.08 r4;
          shares0 = Math_round (to_double (real_of_int totalEngagement * f5));
          saves0 = totalEngagement - likes0 - comments0 - shares0
      in (\<lparr>impressions = impressions0, reach = reach0, likes = max 0 likes0,
           comments = max 0 comments0, shares = max 0 shares0, saves = max 0 saves0,
           engagement_rate = toFixed2 (to_double (engagementRate * 100))\<rparr>, r5))"

section \<open>config.js\<close>

text \<open>
  The scale presets. The count of workspaces is the field \<open>scale_workspaces\<close> (the name
  \<open>workspaces\<close> is the collection's).
\<close>

record scale =
  scale_workspaces :: nat
  productsPerWorkspace :: nat
  variantsPerProduct :: nat
  postsPerWorkspace :: nat
  conversationsPerWorkspace :: nat
  ordersPerWorkspace :: nat
  daysOfHistory :: nat
  customersPerWorkspace :: nat

definition CONFIG_scales_small :: scale where
  "CONFIG_scales_small =
     \<lparr>scale_workspaces = 2, productsPerWorkspace = 10, variantsPerProduct = 3,
      postsPerWorkspace = 20, conversationsPerWorkspace = 50, ordersPerWorkspace = 30,
      daysOfHistory = 30, customersPerWorkspace = 200\<rparr>"

definition CONFIG_scales_medium :: scale where
  "CONFIG_scales_medium =
     \<lparr>scale_workspaces = 5, productsPerWorkspace = 50, variantsPerProduct = 4,
      postsPerWorkspace = 100, conversationsPerWorkspace = 500, ordersPerWorkspace = 200,
      daysOfHistory = 90, customersPerWorkspace = 1000\<rparr>"

definition CONFIG_scales_large :: scale where
  "CONFIG_scales_large =
     \<lparr>scale_workspaces = 10, productsPerWorkspace = 200, variantsPerProduct = 5,
      postsPerWorkspace = 500, conversationsPerWorkspace = 2000, ordersPerWorkspace = 1000,
      daysOfHistory = 180, customersPerWorkspace = 5000\<rparr>"

definition CONFIG_scales_planning :: scale where
  "CONFIG_scales_planning =
     \<lparr>scale_workspaces = 3, productsPerWorkspace = 100, variantsPerProduct = 6,
      postsPerWorkspace = 200, conversationsPerWorkspace = 1000, ordersPerWorkspace = 500,
      daysOfHistory = 365, customersPerWorkspace = 2000\<rparr>"

definition CONFIG_seasonality_monthly :: "nat \<rightharpoonup> real" where
  "CONFIG_seasonality_monthly =
     map_of [(1, 0.85), (2, 0.75), (3, 0.78), (4, 0.92), (5, 0.98), (6, 0.95),
             (7, 0.88), (8, 0.92), (9, 1.07), (10, 0.84), (11, 1.29), (12, 1.15)]"

definition CONFIG_hourlyWeights :: "real list" where
  "CONFIG_hourlyWeights =
     [0.008, 0.005, 0.004, 0.004, 0.006, 0.015,
      0.025, 0.055, 0.070, 0.065, 0.055, 0.075,
      0.080, 0.070, 0.050, 0.045, 0.050, 0.065,
      0.075, 0.080, 0.075, 0.055, 0.035, 0.018]"

definition CONFIG_dailyWeights :: "nat \<rightharpoonup> real" where
  "CONFIG_dailyWeights =
     map_of [(0, 0.85), (1, 0.95), (2, 1.15), (3, 1.20), (4, 1.15), (5, 1.00), (6, 0.80)]"

datatype device = mobile | desktop | tablet

definition CONFIG_devices_distribution :: "device \<Rightarrow> real" where
  "CONFIG_devices_distribution d = (case d of mobile \<Rightarrow> 0.70 | desktop \<Rightarrow> 0.28 | tablet \<Rightarrow> 0.02)"

definition CONFIG_devices_conversionMultiplier :: "device \<Rightarrow> real" where
  "CONFIG_devices_conversionMultiplier d =
     (case d of mobile \<Rightarrow> 0.85 | desktop \<Rightarrow> 1.70 | tablet \<Rightarrow> 1.00)"

record tierConfig =
  tier_name :: string
  probability :: real
  multiplier_range :: rate_range

definition CONFIG_postPerformance_distribution :: "tierConfig list" where
  "CONFIG_postPerformance_distribution =
     [\<lparr>tier_name = ''viral'', probability = 0.03, multiplier_range = \<lparr>range_min = 5, range_max = 15\<rparr>\<rparr>,
      \<lparr>tier_name = ''highPerforming'', probability = 0.12, multiplier_range = \<lparr>range_min = 2, range_max = 5\<rparr>\<rparr>,
      \<lparr>tier_name = ''average'', probability = 0.50, multiplier_range = \<lparr>range_min = 0.7, range_max = 1.5\<rparr>\<rparr>,
      \<lparr>tier_name = ''underperforming'', probability = 0.25, multiplier_range = \<lparr>range_min = 0.3, range_max = 0.7\<rparr>\<rparr>,
      \<lparr>tier_name = ''flop'', probability = 0.10, multiplier_range = \<lparr>range_min = 0.05, range_max = 0.3\<rparr>\<rparr>]"

definition CONFIG_inventory_initialStock :: "int \<times> int" where
  "CONFIG_inventory_initialStock = (10, 500)"

definition CONFIG_sizes :: "string list" where
  "CONFIG_sizes = [''XS'', ''S'', ''M'', ''L'', ''XL'', ''XXL'']"

definition CONFIG_inventory_sizeDistribution :: "string \<rightharpoonup> real" where
  "CONFIG_inventory_sizeDistribution =
     map_of [(''XS'', 0.08), (''S'', 0.18), (''M'', 0.30), (''L'', 0.26), (''XL'', 0.13), (''XXL'', 0.05)]"

definition CONFIG_geography_countries :: "string weighted list" where
  "CONFIG_geography_countries =
     [\<lparr>item = ''US'', weight = 0.55\<rparr>, \<lparr>item = ''CA'', weight = 0.08\<rparr>,
      \<lparr>item = ''GB'', weight = 0.12\<rparr>, \<lparr>item = ''AU'', weight = 0.06\<rparr>,
      \<lparr>item = ''DE'', weight = 0.07\<rparr>, \<lparr>item = ''FR'', weight = 0.05\<rparr>,
      \<lparr>item = ''OTHER'', weight = 0.07\<rparr>]"

record category =
  category_name :: string
  category_weight :: real
  avgPrice :: int

definition CONFIG_categories :: "category list" where
  "CONFIG_categories =
     [\<lparr>category_name = ''Dresses'', category_weight = 0.18, avgPrice = 8999\<rparr>,
      \<lparr>category_name = ''Tops'', category_weight = 0.25, avgPrice = 4999\<rparr>,
      \<lparr>category_name = ''Pants'', category_weight = 0.14, avgPrice = 6999\<rparr>,
      \<lparr>category_name = ''Outerwear'', category_weight = 0.10, avgPrice = 14999\<rparr>,
      \<lparr>category_name = ''Activewear'', category_weight = 0.12, avgPrice = 5999\<rparr>,
      \<lparr>category_name = ''Swimwear'', category_weight = 0.05, avgPrice = 7999\<rparr>,
      \<lparr>category_name = ''Accessories'', category_weight = 0.10, avgPrice = 3999\<rparr>,
      \<lparr>category_name = ''Shoes'', category_weight = 0.06, avgPrice = 9999\<rparr>]"

definition CONFIG_pricing_products :: "int \<times> int \<times> int" where
  "CONFIG_pricing_products = (1999, 29999, 7999)"

definition CONFIG_conversationStates :: "string list" where
  "CONFIG_conversationStates =
     [''initial'', ''greeting_sent'', ''awaiting_response'', ''photo_requested'',
      ''awaiting_photo'', ''processing_tryon'', ''result_sent'', ''completed'', ''abandoned'']"

definition CONFIG_output_nullProbability :: real where
  "CONFIG_output_nullProbability = 0.02"

section \<open>The weighted getters of utils/helpers.js\<close>

definition getWeightedHour :: "env \<Rightarrow> nat \<Rightarrow> (nat \<times> nat) option" where
  "getWeightedHour E r =
     weightedChoice E (map (\<lambda>(hour, w). \<lparr>item = hour, weight = w\<rparr>)
                          (enumerate 0 CONFIG_hourlyWeights)) r"

definition getWeightedDayOfWeek :: "env \<Rightarrow> nat \<Rightarrow> (nat \<times> nat) option" where
  "getWeightedDayOfWeek E r =
     weightedChoice E
       [\<lparr>item = 0, weight = 0.85\<rparr>, \<lparr>item = 1, weight = 0.95\<rparr>, \<lparr>item = 2, weight = 1.15\<rparr>,
        \<lparr>item = 3, weight = 1.20\<rparr>, \<lparr>item = 4, weight = 1.15\<rparr>, \<lparr>item = 5, weight = 1.00\<rparr>,
        \<lparr>item = 6, weight = 0.80\<rparr>] r"

definition getWeightedCountry :: "env \<Rightarrow> nat \<Rightarrow> (string \<times> nat) option" where
  "getWeightedCountry E r = weightedChoice E CONFIG_geography_countries r"

definition getWeightedDevice :: "env \<Rightarrow> nat \<Rightarrow> (device \<times> nat) option" where
  "getWeightedDevice E r =
     weightedChoice E
       [\<lparr>item = mobile, weight = CONFIG_devices_distribution mobile\<rparr>,
        \<lparr>item = desktop, weight = CONFIG_devices_distribution desktop\<rparr>,
        \<lparr>item = tablet, weight = CONFIG_devices_distribution tablet\<rparr>] r"

definition getWeightedCategory :: "env \<Rightarrow> nat \<Rightarrow> (category \<times> nat) option" where
  "getWeightedCategory E r =
     weightedChoice E (map (\<lambda>c. \<lparr>item = c, weight = category_weight c\<rparr>) CONFIG_categories) r"

text \<open>\<^verbatim>\<open>sizeDistribution[size] || 0.15\<close>: a missing or zero entry reads 0.15.\<close>

definition getWeightedSize :: "env \<Rightarrow> nat \<Rightarrow> (string \<times> nat) option" where
  "getWeightedSize E r =
     weightedChoice E
       (map (\<lambda>size. \<lparr>item = size,
                     weight = (case CONFIG_inventory_sizeDistribution size of
                                 None \<Rightarrow> 0.15
                               | Some w \<Rightarrow> if w = 0 then 0.15 else w)\<rparr>) CONFIG_sizes) r"

definition generatePrice :: "env \<Rightarrow> string option \<Rightarrow> nat \<Rightarrow> int \<times> nat" where
  "generatePrice E cat r =
     (case (case cat of None \<Rightarrow> None
            | Some name \<Rightarrow> List.find (\<lambda>c. category_name c = name) CONFIG_categories) of
        Some c \<Rightarrow>
          (let (f, r1) = randomFloat E 0.5 1.5 r in (Math_round (real_of_int (avgPrice c) * f), r1))
      | None \<Rightarrow>
          (let (lo, hi, median) = CONFIG_pricing_products;
               (skew, r1) = randomFloat E (- 1) 1 r;
               range = (if skew > 0 then hi - median else median - lo)
           in (Math_round (real_of_int median + skew * real_of_int range * \<bar>skew\<bar>), r1)))"

definition maybeNull :: "env \<Rightarrow> 'a \<Rightarrow> nat \<Rightarrow> 'a option \<times> nat" where
  "maybeNull E v r =
     (let (b, r1) = randomBool E CONFIG_output_nullProbability r in (if b then None else Some v, r1))"

section \<open>generators/index.js: the data model\<close>

text \<open>
  The records keep the identifiers, the foreign keys and the fields that later stages or
  the properties below read. Fields filled by the faker library (names, captions) and
  decorative fields are left out; where such a field is filled from \<^verbatim>\<open>Math.random\<close>,
  \<open>unusedDraws\<close> moves the stream past the numbers it reads, so that every later draw
  reads the same position as in the source.
\<close>

definition unusedDraws :: "nat \<Rightarrow> nat \<Rightarrow> nat" where
  "unusedDraws n r = r + n"

record workspace =
  workspace_id :: uuid
  workspace_created_at :: int

record account =
  account_id :: uuid
  account_workspace_id :: uuid
  account_created_at :: int

record product =
  product_id :: uuid
  product_workspace_id :: uuid
  product_account_id :: uuid
  product_type :: string
  product_price_cents :: int
  compare_at_price_cents :: "int option"
  cost_cents :: int
  total_inventory :: int
  has_variants_in_stock :: bool
  lowest_stock_level :: int
  variants_count :: nat
  product_created_at :: int

record variant =
  variant_id :: uuid
  variant_product_id :: uuid
  variant_size :: string
  variant_price_cents :: int
  inventory_quantity :: int
  available :: bool
  variant_created_at :: int

record inventory_record =
  history_id :: uuid
  history_variant_id :: uuid
  history_product_id :: uuid
  previous_quantity :: int
  new_quantity :: int
  change_amount :: int
  change_source :: string

record social_post =
  post_id :: uuid
  post_workspace_id :: uuid
  post_account_id :: uuid
  post_product_id :: "uuid option"
  posted_at :: int
  post_created_at :: int

record post_metric = engagementMetrics +
  metric_id :: uuid
  metric_post_id :: uuid
  metric_account_id :: uuid
  metric_date :: int
  metric_hour :: nat

record garment_binding = funnelMetrics +
  binding_id :: uuid
  binding_post_id :: uuid
  binding_product_id :: uuid
  binding_workspace_id :: uuid
  binding_account_id :: uuid
  is_active :: bool
  total_revenue_cents :: int
  last_used_at :: "int option"
  binding_created_at :: int

record conversation =
  conversation_id :: uuid
  conversation_workspace_id :: uuid
  conversation_account_id :: uuid
  participant_id :: string
  conversation_state :: "string option"
  conversation_category :: string
  started_at :: int
  last_message_at :: int
  message_count :: int
  bot_messages :: int
  user_messages :: int
  resulted_in_tryon :: bool
  resulted_in_purchase :: bool
  purchase_amount_cents :: "int option"

record shop_order =
  order_id :: uuid
  order_workspace_id :: uuid
  order_account_id :: uuid
  order_number :: int
  order_customer_id :: string
  total_price_cents :: int
  subtotal_cents :: int
  tax_cents :: int
  shipping_cents :: int
  discount_cents :: int
  line_items_count :: int
  attributed_to_tryon :: bool
  order_conversation_id :: "uuid option"
  order_binding_id :: "uuid option"
  ordered_at :: int

datatype event_type =
    POST_VIEW | POST_LIKE | POST_COMMENT | POST_SAVE | POST_SHARE
  | DM_STARTED | TRIGGER_KEYWORD | BOT_GREETING
  | PHOTO_REQUESTED | PHOTO_RECEIVED | TRYON_STARTED | TRYON_COMPLETED | TRYON_FAILED
  | PRODUCT_LINK_CLICKED | ADD_TO_CART | CHECKOUT_STARTED | PURCHASE_COMPLETED
  | REVIEW_SUBMITTED | RETURN_INITIATED | REPEAT_VISIT

record journey_event =
  journey_id :: uuid
  session_id :: uuid
  journey_customer_id :: string
  journey_workspace_id :: uuid
  journey_event_type :: event_type
  event_timestamp :: int
  device_type :: device
  geo_country :: string
  journey_post_id :: "uuid option"
  journey_product_id :: "uuid option"
  journey_conversation_id :: "uuid option"
  funnel_stage :: nat
  converted_to_next_stage :: bool
  time_to_next_event_seconds :: int
  session_event_number :: nat
  is_session_first_event :: bool
  is_session_last_event :: bool

record daily_aggregate =
  aggregate_id :: uuid
  aggregate_workspace_id :: uuid
  aggregate_product_id :: "uuid option"
  aggregate_metric_date :: int
  day_of_week :: nat
  is_weekend :: bool

record customer_profile =
  profile_id :: uuid
  profile_customer_id :: string
  profile_workspace_id :: uuid
  first_seen_at :: int
  last_seen_at :: int
  total_sessions :: nat
  total_tryons :: nat
  profile_total_purchases :: nat
  profile_total_revenue_cents :: int
  avg_order_value_cents :: int
  predicted_ltv_cents :: int
  churn_probability :: real
  next_purchase_probability :: real
  customer_segment :: string

record demand_forecast =
  forecast_id :: uuid
  forecast_product_id :: uuid
  forecast_workspace_id :: uuid
  forecast_horizon_days :: int
  predicted_demand :: int
  confidence_interval_low :: int
  confidence_interval_high :: int
  prediction_confidence :: real

record dataset =
  workspaces :: "workspace list"
  accounts :: "account list"
  products :: "product list"
  product_variants :: "variant list"
  inventory_history :: "inventory_record list"
  social_posts :: "social_post list"
  post_metrics :: "post_metric list"
  garment_bindings :: "garment_binding list"
  conversations :: "conversation list"
  orders :: "shop_order list"
  customer_journeys :: "journey_event list"
  daily_aggregates :: "daily_aggregate list"
  customer_profiles :: "customer_profile list"
  demand_forecasts :: "demand_forecast list"

section \<open>generators/index.js: loops and state\<close>

text \<open>
  A stage of \<^verbatim>\<open>DataGenerator\<close> is a loop nest that pushes records on its collection.
  The loops are \<open>for_each\<close> (\<^verbatim>\<open>for (const x of xs)\<close>) and \<open>for_range\<close>
  (\<^verbatim>\<open>for (let i = 0; i < n; i++)\<close>): the body returns the records it pushes and the
  new state, or \<open>None\<close> when it throws, which ends the run. The state of a loop is
  the cursor \<open>(r, i)\<close> (the positions in the random and the uuid stream), with the lookup
  map the stage fills when it fills one. Each stage takes the collections and lookups it
  reads from \<^verbatim>\<open>this.data\<close> and \<^verbatim>\<open>this.lookups\<close> and returns the ones it writes.
\<close>

type_synonym cursor = "nat \<times> nat"

type_synonym 'a lookup = "uuid \<rightharpoonup> 'a list"

fun for_each :: "'b list \<Rightarrow> ('b \<Rightarrow> 's \<Rightarrow> ('a list \<times> 's) option) \<Rightarrow> 's \<Rightarrow> ('a list \<times> 's) option" where
  "for_each [] body s = Some ([], s)"
| "for_each (x # xs) body s =
     (case body x s of
        None \<Rightarrow> None
      | Some (ys, s1) \<Rightarrow>
          (case for_each xs body s1 of
             None \<Rightarrow> None
           | Some (zs, s2) \<Rightarrow> Some (ys @ zs, s2)))"

fun for_range :: "nat \<Rightarrow> nat \<Rightarrow> (nat \<Rightarrow> 's \<Rightarrow> ('a list \<times> 's) option) \<Rightarrow> 's \<Rightarrow> ('a list \<times> 's) option" where
  "for_range i 0 body s = Some ([], s)"
| "for_range i (Suc n) body s =
     (case body i s of
        None \<Rightarrow> None
      | Some (ys, s1) \<Rightarrow>
          (case for_range (Suc i) n body s1 of
             None \<Rightarrow> None
           | Some (zs, s2) \<Rightarrow> Some (ys @ zs, s2)))"

text \<open>\<^verbatim>\<open>map.get(k).push(v)\<close> throws when the key is missing.\<close>

definition lookup_push :: "'a lookup \<Rightarrow> uuid \<Rightarrow> 'a \<Rightarrow> 'a lookup option" where
  "lookup_push m k v = (case m k of None \<Rightarrow> None | Some vs \<Rightarrow> Some (m(k \<mapsto> vs @ [v])))"

section \<open>Stages 1 to 4: workspaces, products, variants, inventory history\<close>

definition newWorkspace :: "env \<Rightarrow> cursor \<Rightarrow> (workspace \<times> account) \<times> cursor" where
  "newWorkspace E = (\<lambda>(r, i).
     let (wid, i1) = generateId E i;
         (age, r1) = randomInt E 30 365 r;
         w = \<lparr>workspace_id = wid, workspace_created_at = daysAgo E age\<rparr>;
         (aid, i2) = generateId E i1;
         r2 = unusedDraws 1 r1;
         a = \<lparr>account_id = aid, account_workspace_id = workspace_id w,
              account_created_at = workspace_created_at w\<rparr>
     in ((w, a), (r2, i2)))"

definition generateWorkspaces ::
  "env \<Rightarrow> scale \<Rightarrow> cursor
   \<Rightarrow> (workspace list \<times> account list \<times> product lookup \<times> social_post lookup \<times> cursor) option" where
  "generateWorkspaces E sc c = do {
     (was, c1) \<leftarrow> for_range 0 (scale_workspaces sc)
                    (\<lambda>_ c. let (wa, c') = newWorkspace E c in Some ([wa], c')) c;
     Some (map fst was, map snd was,
           foldl (\<lambda>m w. m(workspace_id w \<mapsto> [])) Map.empty (map fst was),
           foldl (\<lambda>m w. m(workspace_id w \<mapsto> [])) Map.empty (map fst was), c1)
   }"

text \<open>Reading \<^verbatim>\<open>account.id\<close> throws when \<^verbatim>\<open>find\<close> returned no account.\<close>

definition newProduct ::
  "env \<Rightarrow> scale \<Rightarrow> workspace \<Rightarrow> account option \<Rightarrow> cursor \<Rightarrow> (product \<times> cursor) option" where
  "newProduct E sc ws acct = (\<lambda>(r, i). do {
     (cat, r1) \<leftarrow> getWeightedCategory E r;
     let (price, r2) = generatePrice E (Some (category_name cat)) r1;
     let (f, r3) = randomFloat E 0.3 0.6 r2;
     let costCents = Math_round (real_of_int price * f);
     let (sale, r4) = randomBool E 0.15 r3;
     let (compareAtPrice, r5) =
           (if sale then (let (g, r') = randomFloat E 1.2 1.5 r4
                          in (Some (Math_round (real_of_int price * g)), r'))
            else (None, r4));
     let (totalInventory, r6) =
           randomInt E (fst CONFIG_inventory_initialStock) (snd CONFIG_inventory_initialStock) r5;
     let (pid, i1) = generateId E i;
     a \<leftarrow> acct;
     let r7 = unusedDraws 2 r6;
     let (lowest, r8) = randomInt E 0 (min 10 totalInventory) r7;
     let r9 = unusedDraws 1 r8;
     let (created, r10) = randomDate E (daysAgo E (int (daysOfHistory sc))) (now E) r9;
     Some (\<lparr>product_id = pid, product_workspace_id = workspace_id ws,
            product_account_id = account_id a, product_type = category_name cat,
            product_price_cents = price, compare_at_price_cents = compareAtPrice,
            cost_cents = costCents, total_inventory = totalInventory,
            has_variants_in_stock = (totalInventory > 0), lowest_stock_level = lowest,
            variants_count = variantsPerProduct sc, product_created_at = created\<rparr>, (r10, i1))
   })"

definition generateProducts ::
  "env \<Rightarrow> scale \<Rightarrow> workspace list \<Rightarrow> account list \<Rightarrow> product lookup \<Rightarrow> cursor
   \<Rightarrow> (product list \<times> product lookup \<times> cursor) option" where
  "generateProducts E sc wss accts workspaceProducts c = do {
     (ps, (c1, wp)) \<leftarrow>
       for_each wss (\<lambda>ws.
         let acct = List.find (\<lambda>a. account_workspace_id a = workspace_id ws) accts
         in for_range 0 (productsPerWorkspace sc) (\<lambda>_ (c, wp). do {
              (p, c') \<leftarrow> newProduct E sc ws acct c;
              wp' \<leftarrow> lookup_push wp (workspace_id ws) p;
              Some ([p], (c', wp'))
            })) (c, workspaceProducts);
     Some (ps, wp, c1)
   }"

definition generateSKU :: "env \<Rightarrow> nat \<Rightarrow> nat" where
  "generateSKU E r = unusedDraws 1 r"

definition newVariant :: "env \<Rightarrow> scale \<Rightarrow> product \<Rightarrow> cursor \<Rightarrow> (variant \<times> cursor) option" where
  "newVariant E sc p = (\<lambda>(r, i). do {
     (size, r1) \<leftarrow> getWeightedSize E r;
     let r2 = unusedDraws 1 r1;
     let inventoryPerVariant =
           Math_round (real_of_int (total_inventory p) / real (variantsPerProduct sc));
     let (vid, i1) = generateId E i;
     let r3 = unusedDraws 1 r2;
     let r4 = generateSKU E r3;
     let (dp, r5) = randomInt E (- 500) 500 r4;
     let (dq, r6) = randomInt E (- 5) 5 r5;
     Some (\<lparr>variant_id = vid, variant_product_id = product_id p, variant_size = size,
            variant_price_cents = product_price_cents p + dp,
            inventory_quantity = clamp (inventoryPerVariant + dq) 0 500,
            available = (inventoryPerVariant > 0),
            variant_created_at = product_created_at p\<rparr>, (r6, i1))
   })"

definition generateProductVariants ::
  "env \<Rightarrow> scale \<Rightarrow> product list \<Rightarrow> cursor \<Rightarrow> (variant list \<times> cursor) option" where
  "generateProductVariants E sc ps c =
     for_each ps (\<lambda>p (r, i).
       for_range 0 (variantsPerProduct sc) (\<lambda>_ c. do {
         (v, c') \<leftarrow> newVariant E sc p c;
         Some ([v], c')
       }) (unusedDraws 1 r, i)) c"

text \<open>
  One pass of the innermost loop of \<^verbatim>\<open>generateInventoryHistory\<close>: a change is drawn,
  the running stock is clamped, and a record is pushed when the stock changed. The state
  is the running stock with the cursor. An index of \<^verbatim>\<open>randomChoice\<close> outside the
  four sources would leave the stock \<^verbatim>\<open>NaN\<close>; the model stops there.
\<close>

definition changeSources :: "string list" where
  "changeSources = [''sale'', ''restock'', ''adjustment'', ''return'']"

definition drawChangeAmount :: "env \<Rightarrow> string \<Rightarrow> nat \<Rightarrow> (int \<times> nat) option" where
  "drawChangeAmount E source r =
     (if source = ''sale'' then (let (n, r1) = randomInt E 1 5 r in Some (- n, r1))
      else if source = ''restock'' then Some (randomInt E 10 50 r)
      else if source = ''adjustment'' then Some (randomInt E (- 3) 3 r)
      else if source = ''return'' then Some (randomInt E 1 2 r)
      else None)"

definition inventoryChange ::
  "env \<Rightarrow> variant \<Rightarrow> int \<times> cursor \<Rightarrow> (inventory_record list \<times> (int \<times> cursor)) option" where
  "inventoryChange E v = (\<lambda>(currentStock, (r, i)). do {
     let (src, r1) = randomChoice E changeSources r;
     source \<leftarrow> src;
     (changeAmount, r2) \<leftarrow> drawChangeAmount E source r1;
     let previousQuantity = currentStock;
     let currentStock' = clamp (currentStock + changeAmount) 0 500;
     if previousQuantity \<noteq> currentStock' then do {
       let r3 = unusedDraws 2 r2;
       let (hid, i1) = generateId E i;
       let r4 = unusedDraws 1 r3;
       Some ([\<lparr>history_id = hid, history_variant_id = variant_id v,
               history_product_id = variant_product_id v,
               previous_quantity = previousQuantity, new_quantity = currentStock',
               change_amount = currentStock' - previousQuantity,
               change_source = source\<rparr>], (currentStock', (r4, i1)))
     } else Some ([], (currentStock', (r2, i)))
   })"

definition generateInventoryHistory ::
  "env \<Rightarrow> scale \<Rightarrow> variant list \<Rightarrow> cursor \<Rightarrow> (inventory_record list \<times> cursor) option" where
  "generateInventoryHistory E sc vs c =
     for_each vs (\<lambda>v (r, i). do {
       let (extra, r1) = randomInt E 20 100 r;
       (hs, (stock, c')) \<leftarrow>
         for_range 0 (daysOfHistory sc) (\<lambda>day (stock, (r, i)).
           let (changesPerDay, r') = randomInt E 0 3 r
           in for_range 0 (nat changesPerDay) (\<lambda>_. inventoryChange E v) (stock, (r', i)))
         (inventory_quantity v + extra, (r1, i));
       Some (hs, c')
     }) c"

section \<open>Stages 5 to 9: posts, post metrics, bindings, conversations, orders\<close>

text \<open>
  \<^verbatim>\<open>randomChoice(products)\<close> throws when the lookup has no entry for the workspace
  (\<open>products = None\<close>); it is called only when the post links a product.
\<close>

definition newPost ::
  "env \<Rightarrow> scale \<Rightarrow> workspace \<Rightarrow> account option \<Rightarrow> product list option \<Rightarrow> cursor
   \<Rightarrow> (social_post \<times> cursor) option" where
  "newPost E sc ws acct prods = (\<lambda>(r, i). do {
     let (postedAt, r1) = randomDate E (daysAgo E (int (daysOfHistory sc))) (now E) r;
     let (linked, r2) = randomBool E 0.7 r1;
     (linkedProduct, r3) \<leftarrow>
       (if linked then (case prods of None \<Rightarrow> None | Some ps \<Rightarrow> Some (randomChoice E ps r2))
        else Some (None, r2));
     let (pid, i1) = generateId E i;
     a \<leftarrow> acct;
     let r4 = unusedDraws 4 r3;
     Some (\<lparr>post_id = pid, post_workspace_id = workspace_id ws, post_account_id = account_id a,
            post_product_id = map_option product_id linkedProduct,
            posted_at = postedAt, post_created_at = postedAt\<rparr>, (r4, i1))
   })"

definition generateSocialPosts ::
  "env \<Rightarrow> scale \<Rightarrow> workspace list \<Rightarrow> account list \<Rightarrow> product lookup \<Rightarrow> social_post lookup
   \<Rightarrow> cursor \<Rightarrow> (social_post list \<times> social_post lookup \<times> cursor) option" where
  "generateSocialPosts E sc wss accts workspaceProducts workspacePosts c = do {
     (ps, (c1, wp)) \<leftarrow>
       for_each wss (\<lambda>ws.
         let acct = List.find (\<lambda>a. account_workspace_id a = workspace_id ws) accts;
             prods = workspaceProducts (workspace_id ws)
         in for_range 0 (postsPerWorkspace sc) (\<lambda>_ (c, wp). do {
              (p, c') \<leftarrow> newPost E sc ws acct prods c;
              wp' \<leftarrow> lookup_push wp (workspace_id ws) p;
              Some ([p], (c', wp'))
            })) (c, workspacePosts);
     Some (ps, wp, c1)
   }"

text \<open>
  The reach of a day is a double: \<^verbatim>\<open>Math.exp\<close> is taken as the correctly rounded
  exponential (\<^verbatim>\<open>Math.exp(-0)\<close> is 1).
\<close>

definition newPostMetric :: "env \<Rightarrow> social_post \<Rightarrow> nat \<Rightarrow> cursor \<Rightarrow> (post_metric \<times> cursor) option" where
  "newPostMetric E post day = (\<lambda>(r, i). do {
     let metricDate = plusDays E (posted_at post) (int day);
     let decayFactor = to_double (exp (to_double (- real day * to_double 0.1)));
     let (n, r1) = randomInt E 100 10000 r;
     let baseReach = to_double (real_of_int n * decayFactor);
     let (metrics, r2) = generateEngagementMetrics E (Math_round baseReach) r1;
     let (mid, i1) = generateId E i;
     (hour, r3) \<leftarrow> getWeightedHour E r2;
     Some (engagementMetrics.extend metrics
             \<lparr>metric_id = mid, metric_post_id = post_id post,
              metric_account_id = post_account_id post, metric_date = metricDate,
              metric_hour = hour\<rparr>, (r3, i1))
   })"

definition generatePostMetrics ::
  "env \<Rightarrow> social_post list \<Rightarrow> cursor \<Rightarrow> (post_metric list \<times> cursor) option" where
  "generatePostMetrics E posts c =
     for_each posts (\<lambda>post.
       let daysSincePost = (now E - posted_at post) div 86400000;
           metricsToGenerate = min daysSincePost 30
       in for_range 0 (nat metricsToGenerate) (\<lambda>day c. do {
            (m, c') \<leftarrow> newPostMetric E post day c;
            Some ([m], c')
          })) c"

text \<open>
  A post without a product, or whose product is not found, is skipped. The sum of the
  impressions and the trigger count are computed in doubles.
\<close>

definition newBinding ::
  "env \<Rightarrow> product list \<Rightarrow> post_metric list \<Rightarrow> social_post \<Rightarrow> cursor
   \<Rightarrow> garment_binding list \<times> cursor" where
  "newBinding E prods metrics post = (\<lambda>(r, i).
     case post_product_id post of
       None \<Rightarrow> ([], (r, i))
     | Some pid \<Rightarrow>
         (case List.find (\<lambda>p. product_id p = pid) prods of
            None \<Rightarrow> ([], (r, i))
          | Some p \<Rightarrow>
              (let postMetrics = filter (\<lambda>m. metric_post_id m = post_id post) metrics;
                   totalImpressions =
                     foldl (\<lambda>sum m. to_double (sum + real_of_int (impressions m))) 0 postMetrics;
                   (f, r1) = randomFloat E 0.001 0.01 r;
                   totalTriggers = Math_round (to_double (totalImpressions * f));
                   (funnel, r2) = generateFunnelMetrics E totalTriggers CONFIG_funnelRates r1;
                   (bid, i1) = generateId E i;
                   r3 = unusedDraws 2 r2;
                   (lastUsed, r4) =
                     (if total_triggers funnel > 0
                      then (let (d, r') = randomDate E (daysAgo E 7) (now E) r3 in (Some d, r'))
                      else (None, r3))
               in ([funnelMetrics.extend funnel
                      \<lparr>binding_id = bid, binding_post_id = post_id post,
                       binding_product_id = product_id p,
                       binding_workspace_id = post_workspace_id post,
                       binding_account_id = post_account_id post, is_active = True,
                       total_revenue_cents = total_purchases funnel * product_price_cents p,
                       last_used_at = lastUsed,
                       binding_created_at = post_created_at post\<rparr>], (r4, i1)))))"

definition generateGarmentBindings ::
  "env \<Rightarrow> product list \<Rightarrow> social_post list \<Rightarrow> post_metric list \<Rightarrow> cursor
   \<Rightarrow> (garment_binding list \<times> cursor) option" where
  "generateGarmentBindings E prods posts metrics c =
     for_each posts (\<lambda>post c. Some (newBinding E prods metrics post c)) c"

definition tryonStates :: "string list" where
  "tryonStates = [''processing_tryon'', ''result_sent'', ''completed'']"

text \<open>\<^verbatim>\<open>x?.price_cents || 5000\<close>: a missing product or a price of 0 reads 5000.\<close>

definition newConversation ::
  "env \<Rightarrow> scale \<Rightarrow> workspace \<Rightarrow> account option \<Rightarrow> product list \<Rightarrow> garment_binding list
   \<Rightarrow> cursor \<Rightarrow> (conversation \<times> cursor) option" where
  "newConversation E sc ws acct prods bindings = (\<lambda>(r, i). do {
     let (customerId, r1) = generateHash E 16 r;
     let (startedAt, r2) = randomDate E (daysAgo E (int (daysOfHistory sc))) (now E) r1;
     let (messageCount, r3) = randomInt E 2 15 r2;
     let (state, r4) = randomChoice E CONFIG_conversationStates r3;
     let resultedInTryon = (case state of None \<Rightarrow> False | Some s \<Rightarrow> s \<in> set tryonStates);
     let (resultedInPurchase, r5) =
           (if resultedInTryon then randomBool E 0.15 r4 else (False, r4));
     let (binding, r6) =
           (if length bindings > 0 then randomChoice E bindings r5 else (None, r5));
     let (cid, i1) = generateId E i;
     a \<leftarrow> acct;
     let (lastMessageAt, r7) = randomDate E startedAt (now E) r6;
     Some (\<lparr>conversation_id = cid, conversation_workspace_id = workspace_id ws,
            conversation_account_id = account_id a, participant_id = customerId,
            conversation_state = state,
            conversation_category = (if resultedInTryon then ''tryon'' else ''general''),
            started_at = startedAt, last_message_at = lastMessageAt,
            message_count = messageCount,
            bot_messages = Math_round (real_of_int messageCount * 0.4),
            user_messages = Math_round (real_of_int messageCount * 0.6),
            resulted_in_tryon = resultedInTryon,
            resulted_in_purchase = resultedInPurchase,
            purchase_amount_cents =
              (if resultedInPurchase
               then (case binding of
                       None \<Rightarrow> None
                     | Some b \<Rightarrow>
                         Some (case List.find (\<lambda>p. product_id p = binding_product_id b) prods of
                                 None \<Rightarrow> 5000
                               | Some p \<Rightarrow> if product_price_cents p = 0 then 5000
                                           else product_price_cents p))
               else None)\<rparr>, (r7, i1))
   })"

text \<open>
  \<^verbatim>\<open>lookups.customerConversations\<close> is a Map iterated later in the order its keys were
  first set: an association list with one entry per key.
\<close>

definition trackConversation ::
  "(string \<times> conversation list) list \<Rightarrow> conversation \<Rightarrow> (string \<times> conversation list) list" where
  "trackConversation m c =
     (case map_of m (participant_id c) of
        None \<Rightarrow> m @ [(participant_id c, [c])]
      | Some _ \<Rightarrow> map (\<lambda>(k, cs). if k = participant_id c then (k, cs @ [c]) else (k, cs)) m)"

definition generateConversations ::
  "env \<Rightarrow> scale \<Rightarrow> workspace list \<Rightarrow> account list \<Rightarrow> product list \<Rightarrow> garment_binding list
   \<Rightarrow> cursor \<Rightarrow> (conversation list \<times> (string \<times> conversation list) list \<times> cursor) option" where
  "generateConversations E sc wss accts prods allBindings c = do {
     (cs, c1) \<leftarrow>
       for_each wss (\<lambda>ws.
         let acct = List.find (\<lambda>a. account_workspace_id a = workspace_id ws) accts;
             bindings = filter (\<lambda>b. binding_workspace_id b = workspace_id ws) allBindings
         in for_range 0 (conversationsPerWorkspace sc) (\<lambda>_ c. do {
              (cv, c') \<leftarrow> newConversation E sc ws acct prods bindings c;
              Some ([cv], c')
            })) c;
     Some (cs, foldl trackConversation [] cs, c1)
   }"

text \<open>
  Reading \<^verbatim>\<open>product.price_cents\<close> throws when \<^verbatim>\<open>randomChoice\<close> found no product.
  \<^verbatim>\<open>conversation?.participant_id || generateHash(16)\<close> draws a new token when there is no
  conversation or its token is the empty string.
\<close>

definition newOrder ::
  "env \<Rightarrow> scale \<Rightarrow> workspace \<Rightarrow> account option \<Rightarrow> product list option \<Rightarrow> conversation list
   \<Rightarrow> garment_binding list \<Rightarrow> nat \<Rightarrow> cursor \<Rightarrow> (shop_order \<times> cursor) option" where
  "newOrder E sc ws acct prods convs allBindings k = (\<lambda>(r, i). do {
     ps \<leftarrow> prods;
     let (chosen, r1) = randomChoice E ps r;
     let (itemCount, r2) = randomInt E 1 4 r1;
     p \<leftarrow> chosen;
     let subtotal = product_price_cents p * itemCount;
     let tax = Math_round (real_of_int subtotal * 0.08);
     let (free, r3) = randomBool E 0.7 r2;
     let (shipping, r4) = (if free then (0, r3) else randomInt E 500 1500 r3);
     let (reduced, r5) = randomBool E 0.2 r4;
     let (discount, r6) =
           (if reduced then (let (f, r') = randomFloat E 0.1 0.3 r5
                             in (Math_round (real_of_int subtotal * f), r'))
            else (0, r5));
     let conv = (if k < length convs then Some (convs ! k) else None);
     let binding = (case conv of
                      None \<Rightarrow> None
                    | Some _ \<Rightarrow> List.find (\<lambda>b. binding_workspace_id b = workspace_id ws) allBindings);
     let (orderedAt, r7) = randomDate E (daysAgo E (int (daysOfHistory sc))) (now E) r6;
     let (oid, i1) = generateId E i;
     a \<leftarrow> acct;
     let r8 = unusedDraws 1 r7;
     let (customer, r9) =
           (case conv of
              None \<Rightarrow> generateHash E 16 r8
            | Some cv \<Rightarrow> if participant_id cv = [] then generateHash E 16 r8
                         else (participant_id cv, r8));
     let r10 = unusedDraws 2 r9;
     let r11 = (case conv of None \<Rightarrow> r10 | Some _ \<Rightarrow> unusedDraws 1 r10);
     Some (\<lparr>order_id = oid, order_workspace_id = workspace_id ws, order_account_id = account_id a,
            order_number = 1000 + int k, order_customer_id = customer,
            total_price_cents = subtotal + tax + shipping - discount,
            subtotal_cents = subtotal, tax_cents = tax, shipping_cents = shipping,
            discount_cents = discount, line_items_count = itemCount,
            attributed_to_tryon = (conv \<noteq> None),
            order_conversation_id = map_option conversation_id conv,
            order_binding_id = map_option binding_id binding,
            ordered_at = orderedAt\<rparr>, (r11, i1))
   })"

definition generateOrders ::
  "env \<Rightarrow> scale \<Rightarrow> workspace list \<Rightarrow> account list \<Rightarrow> product lookup \<Rightarrow> conversation list
   \<Rightarrow> garment_binding list \<Rightarrow> cursor \<Rightarrow> (shop_order list \<times> cursor) option" where
  "generateOrders E sc wss accts workspaceProducts allConversations allBindings c =
     for_each wss (\<lambda>ws.
       let acct = List.find (\<lambda>a. account_workspace_id a = workspace_id ws) accts;
           prods = workspaceProducts (workspace_id ws);
           convs = filter (\<lambda>cv. conversation_workspace_id cv = workspace_id ws
                                \<and> resulted_in_purchase cv) allConversations
       in for_range 0 (ordersPerWorkspace sc) (\<lambda>k c. do {
            (ord, c') \<leftarrow> newOrder E sc ws acct prods convs allBindings k c;
            Some ([ord], c')
          })) c"

section \<open>Stage 10: customer journeys\<close>

definition eventSequences :: "event_type list list" where
  "eventSequences =
     [[POST_VIEW],
      [POST_VIEW, POST_LIKE],
      [POST_VIEW, POST_COMMENT],
      [POST_VIEW, POST_LIKE, DM_STARTED],
      [POST_VIEW, POST_COMMENT, TRIGGER_KEYWORD, DM_STARTED],
      [POST_VIEW, DM_STARTED, PHOTO_REQUESTED],
      [POST_VIEW, DM_STARTED, PHOTO_REQUESTED, PHOTO_RECEIVED, TRYON_COMPLETED],
      [POST_VIEW, DM_STARTED, PHOTO_RECEIVED, TRYON_COMPLETED, PRODUCT_LINK_CLICKED],
      [POST_VIEW, DM_STARTED, PHOTO_RECEIVED, TRYON_COMPLETED, PRODUCT_LINK_CLICKED,
       PURCHASE_COMPLETED]]"

definition eventProbabilities :: "real list" where
  "eventProbabilities =
     [0.9800, 0.0080, 0.0040, 0.0030, 0.0015, 0.0012, 0.0010, 0.0008, 0.0005]"

text \<open>\<^verbatim>\<open>x || 1.0\<close> on a number that may be missing: a missing or zero value reads 1.\<close>

definition orOne :: "real option \<Rightarrow> real" where
  "orOne x = (case x of None \<Rightarrow> 1 | Some v \<Rightarrow> if v = 0 then 1 else v)"

record performance =
  tier :: string
  multiplier :: real

fun tierScan :: "env \<Rightarrow> tierConfig list \<Rightarrow> real \<Rightarrow> real \<Rightarrow> nat \<Rightarrow> performance \<times> nat" where
  "tierScan E [] rand cumulative r = (\<lparr>tier = ''average'', multiplier = 1\<rparr>, r)"
| "tierScan E (t # ts) rand cumulative r =
     (if rand < cumulative + probability t
      then (let (m, r1) = randomFloat E (range_min (multiplier_range t))
                                        (range_max (multiplier_range t)) r
            in (\<lparr>tier = tier_name t, multiplier = m\<rparr>, r1))
      else tierScan E ts rand (cumulative + probability t) r)"

definition getPerformanceTier :: "env \<Rightarrow> tierConfig list \<Rightarrow> nat \<Rightarrow> performance \<times> nat" where
  "getPerformanceTier E distribution r =
     (let (rand, r1) = Math_random E r in tierScan E distribution rand 0 r1)"

definition getWeightedDeviceWithConversion :: "env \<Rightarrow> nat \<Rightarrow> device \<times> nat" where
  "getWeightedDeviceWithConversion E r =
     (let (rand, r1) = Math_random E r
      in (if rand < CONFIG_devices_distribution mobile then mobile
          else if rand < CONFIG_devices_distribution mobile + CONFIG_devices_distribution desktop
          then desktop
          else tablet, r1))"

text \<open>The first index at which the running sum of the weights exceeds \<open>rand\<close>.\<close>

fun cumulativeScan :: "real list \<Rightarrow> real \<Rightarrow> real \<Rightarrow> nat \<Rightarrow> nat option" where
  "cumulativeScan [] rand cumulative idx = None"
| "cumulativeScan (w # ws) rand cumulative idx =
     (if rand < cumulative + w then Some idx
      else cumulativeScan ws rand (cumulative + w) (Suc idx))"

definition getWeightedHourOfDay :: "env \<Rightarrow> nat \<Rightarrow> nat \<times> nat" where
  "getWeightedHourOfDay E r =
     (let (rand, r1) = Math_random E r
      in (case cumulativeScan CONFIG_hourlyWeights rand 0 0 of Some hour \<Rightarrow> hour | None \<Rightarrow> 12, r1))"

definition withTimeOfDay :: "env \<Rightarrow> int \<Rightarrow> nat \<Rightarrow> int \<times> nat" where
  "withTimeOfDay E date r =
     (let (hour, r1) = getWeightedHourOfDay E r;
          (m, r2) = randomInt E 0 59 r1;
          (s, r3) = randomInt E 0 59 r2
      in (setHours E date (int hour) m s, r3))"

text \<open>
  \<^verbatim>\<open>getSeasonallyWeightedDate\<close>: the first argument of \<open>seasonalAttempts\<close> counts the
  attempts that are left, 10 at the start; after them the fallback date is drawn.
\<close>

fun seasonalAttempts :: "env \<Rightarrow> nat \<Rightarrow> int \<Rightarrow> int \<Rightarrow> nat \<Rightarrow> int \<times> nat" where
  "seasonalAttempts E 0 days startDate r =
     (let (randomDay, r1) = randomInt E 0 days r
      in withTimeOfDay E (plusDays E startDate randomDay) r1)"
| "seasonalAttempts E (Suc n) days startDate r =
     (let (randomDay, r1) = randomInt E 0 days r;
          candidateDate = plusDays E startDate randomDay;
          month = getMonth E candidateDate + 1;
          seasonalWeight = orOne (CONFIG_seasonality_monthly month);
          (u, r2) = Math_random E r1
      in if u < seasonalWeight then withTimeOfDay E candidateDate r2
         else seasonalAttempts E n days startDate r2)"

definition getSeasonallyWeightedDate :: "env \<Rightarrow> int \<Rightarrow> nat \<Rightarrow> int \<times> nat" where
  "getSeasonallyWeightedDate E days r =
     seasonalAttempts E (Suc (Suc (Suc (Suc (Suc (Suc (Suc (Suc (Suc (Suc 0)))))))))) days
       (daysAgo E days) r"

definition postWeight :: "(uuid \<rightharpoonup> performance) \<Rightarrow> social_post \<Rightarrow> real" where
  "postWeight performanceMap post = orOne (map_option multiplier (performanceMap (post_id post)))"

fun selectScan :: "(uuid \<rightharpoonup> performance) \<Rightarrow> social_post list \<Rightarrow> real \<Rightarrow> social_post option" where
  "selectScan performanceMap [] rand = None"
| "selectScan performanceMap (post # rest) rand =
     (if rand - postWeight performanceMap post \<le> 0 then Some post
      else selectScan performanceMap rest (rand - postWeight performanceMap post))"

text \<open>The fallback \<^verbatim>\<open>posts[0]\<close> is \<^verbatim>\<open>undefined\<close> (\<open>None\<close>) on an empty list.\<close>

definition selectWeightedPost ::
  "env \<Rightarrow> social_post list \<Rightarrow> (uuid \<rightharpoonup> performance) \<Rightarrow> nat \<Rightarrow> social_post option \<times> nat" where
  "selectWeightedPost E posts performanceMap r =
     (let totalWeight = foldl (\<lambda>t post. t + postWeight performanceMap post) 0 posts;
          (u, r1) = Math_random E r
      in (case selectScan performanceMap posts (u * totalWeight) of
            Some post \<Rightarrow> Some post
          | None \<Rightarrow> (case posts of [] \<Rightarrow> None | post # _ \<Rightarrow> Some post), r1))"

text \<open>
  \<^verbatim>\<open>adjustProbabilities\<close> is only called on the nine \<open>eventProbabilities\<close>; on an
  empty list the source would produce \<^verbatim>\<open>NaN\<close>, which is not modelled.
\<close>

definition adjustProbabilities :: "real list \<Rightarrow> real \<Rightarrow> real list" where
  "adjustProbabilities baseProbs mult0 =
     (let mult = clamp mult0 0.3 3.0;
          others = real (length baseProbs) - 1;
          adjusted =
            (case baseProbs of
               [] \<Rightarrow> []
             | p0 # rest \<Rightarrow>
                 if mult > 1
                 then (let boost = (mult - 1) * 0.01
                       in (p0 - boost) # map (\<lambda>p. p + boost / others) rest)
                 else (let reduction = (1 - mult) * 0.01
                       in (p0 + reduction) # map (\<lambda>p. max 0 (p - reduction / others)) rest));
          total = foldl (\<lambda>a b. a + b) 0 adjusted
      in map (\<lambda>p. p / total) adjusted)"

definition timeRange :: "event_type \<Rightarrow> int \<times> int" where
  "timeRange eventType =
     (case eventType of
        POST_VIEW \<Rightarrow> (2000, 10000)
      | POST_LIKE \<Rightarrow> (5000, 30000)
      | POST_COMMENT \<Rightarrow> (10000, 60000)
      | DM_STARTED \<Rightarrow> (60000, 300000)
      | TRIGGER_KEYWORD \<Rightarrow> (30000, 120000)
      | PHOTO_REQUESTED \<Rightarrow> (60000, 1800000)
      | PHOTO_RECEIVED \<Rightarrow> (5000, 30000)
      | TRYON_COMPLETED \<Rightarrow> (10000, 60000)
      | PRODUCT_LINK_CLICKED \<Rightarrow> (30000, 300000)
      | _ \<Rightarrow> (5000, 60000))"

definition getTimeToNextEvent :: "env \<Rightarrow> event_type \<Rightarrow> nat \<Rightarrow> int \<times> nat" where
  "getTimeToNextEvent E eventType r =
     randomInt E (fst (timeRange eventType)) (snd (timeRange eventType)) r"

definition getEventFunnelStage :: "event_type \<Rightarrow> nat" where
  "getEventFunnelStage eventType =
     (case eventType of
        POST_VIEW \<Rightarrow> 1 | POST_LIKE \<Rightarrow> 1 | POST_COMMENT \<Rightarrow> 1 | POST_SAVE \<Rightarrow> 1 | POST_SHARE \<Rightarrow> 1
      | DM_STARTED \<Rightarrow> 2 | TRIGGER_KEYWORD \<Rightarrow> 2 | BOT_GREETING \<Rightarrow> 2
      | PHOTO_REQUESTED \<Rightarrow> 3 | PHOTO_RECEIVED \<Rightarrow> 3 | TRYON_STARTED \<Rightarrow> 3
      | TRYON_COMPLETED \<Rightarrow> 3 | TRYON_FAILED \<Rightarrow> 3
      | PRODUCT_LINK_CLICKED \<Rightarrow> 4 | ADD_TO_CART \<Rightarrow> 4 | CHECKOUT_STARTED \<Rightarrow> 4
      | PURCHASE_COMPLETED \<Rightarrow> 4
      | REVIEW_SUBMITTED \<Rightarrow> 5 | RETURN_INITIATED \<Rightarrow> 5 | REPEAT_VISIT \<Rightarrow> 5)"

text \<open>
  What is fixed for a session before its events are emitted: the loop over the chosen
  sequence reads these values for every event.
\<close>

record session_context =
  ctx_session_id :: uuid
  ctx_customer_id :: string
  ctx_workspace_id :: uuid
  ctx_device :: device
  ctx_country :: string
  ctx_post_id :: "uuid option"
  ctx_product_id :: "uuid option"
  ctx_conversation_id :: "uuid option"

text \<open>
  One pass of the loop over the sequence of a session: the event at \<open>eventIndex\<close> is
  pushed and the session clock \<open>eventTime\<close> is advanced by the delay of its type.
\<close>

definition newJourneyEvent ::
  "env \<Rightarrow> session_context \<Rightarrow> event_type list \<Rightarrow> nat \<Rightarrow> int \<times> cursor
   \<Rightarrow> journey_event list \<times> (int \<times> cursor)" where
  "newJourneyEvent E ctx sequence eventIndex = (\<lambda>(eventTime, (r, i)).
     let eventType = sequence ! eventIndex;
         funnelStage = getEventFunnelStage eventType;
         (jid, i1) = generateId E i;
         r1 = snd (maybeNull E () r);
         (seconds, r2) = randomInt E 5 300 r1;
         journey =
           \<lparr>journey_id = jid, session_id = ctx_session_id ctx,
            journey_customer_id = ctx_customer_id ctx,
            journey_workspace_id = ctx_workspace_id ctx,
            journey_event_type = eventType, event_timestamp = eventTime,
            device_type = ctx_device ctx, geo_country = ctx_country ctx,
            journey_post_id = ctx_post_id ctx, journey_product_id = ctx_product_id ctx,
            journey_conversation_id = ctx_conversation_id ctx,
            funnel_stage = funnelStage,
            converted_to_next_stage = (int eventIndex < int (length sequence) - 1),
            time_to_next_event_seconds = seconds,
            session_event_number = eventIndex + 1,
            is_session_first_event = (eventIndex = 0),
            is_session_last_event = (int eventIndex = int (length sequence) - 1)\<rparr>;
         (timeToNext, r3) = getTimeToNextEvent E eventType r2
     in ([journey], (eventTime + timeToNext, (r3, i1))))"

definition emitSession ::
  "env \<Rightarrow> session_context \<Rightarrow> event_type list \<Rightarrow> int \<Rightarrow> cursor
   \<Rightarrow> (journey_event list \<times> (int \<times> cursor)) option" where
  "emitSession E ctx sequence sessionStart c =
     for_range 0 (length sequence) (\<lambda>eventIndex s. Some (newJourneyEvent E ctx sequence eventIndex s))
       (sessionStart, c)"

text \<open>
  The body of the loop over the customers of a workspace. Reading \<^verbatim>\<open>post.id\<close> throws
  when \<^verbatim>\<open>selectWeightedPost\<close> found no post, \<^verbatim>\<open>randomChoice(products)\<close> when the
  lookup has no entry, \<^verbatim>\<open>sequence.length\<close> when the index is outside the sequences.
\<close>

definition newSession ::
  "env \<Rightarrow> scale \<Rightarrow> workspace \<Rightarrow> social_post list \<Rightarrow> product list option
   \<Rightarrow> (uuid \<rightharpoonup> performance) \<Rightarrow> conversation list \<Rightarrow> cursor
   \<Rightarrow> (journey_event list \<times> cursor) option" where
  "newSession E sc ws posts prods postPerformance allConversations = (\<lambda>(r, i). do {
     let (sessionId, i1) = generateId E i;
     let (customerId, r1) = generateHash E 16 r;
     let (device, r2) = getWeightedDeviceWithConversion E r1;
     (country, r3) \<leftarrow> getWeightedCountry E r2;
     let (sessionStart, r4) = getSeasonallyWeightedDate E (int (daysOfHistory sc)) r3;
     let month = getMonth E sessionStart + 1;
     let seasonalMult = orOne (CONFIG_seasonality_monthly month);
     let dayOfWeek = getDay E sessionStart;
     let dayMult = orOne (CONFIG_dailyWeights dayOfWeek);
     let temporalMult = seasonalMult * dayMult;
     let (selected, r5) = selectWeightedPost E posts postPerformance r4;
     post \<leftarrow> selected;
     let postMult = orOne (map_option multiplier (postPerformance (post_id post)));
     ps \<leftarrow> prods;
     let (chosen, r6) = randomChoice E ps r5;
     let conv = List.find (\<lambda>cv. participant_id cv = customerId
                                 \<and> conversation_workspace_id cv = workspace_id ws) allConversations;
     let deviceMult = orOne (Some (CONFIG_devices_conversionMultiplier device));
     let totalMult = temporalMult * postMult * deviceMult;
     let adjustedProbs = adjustProbabilities eventProbabilities totalMult;
     let (rand, r7) = Math_random E r6;
     let sequenceIndex = (case cumulativeScan adjustedProbs rand 0 0 of Some idx \<Rightarrow> idx | None \<Rightarrow> 0);
     sequence \<leftarrow> (if sequenceIndex < length eventSequences
                  then Some (eventSequences ! sequenceIndex) else None);
     (evs, (t, c')) \<leftarrow>
       emitSession E
         \<lparr>ctx_session_id = sessionId, ctx_customer_id = customerId,
          ctx_workspace_id = workspace_id ws, ctx_device = device, ctx_country = country,
          ctx_post_id = Some (post_id post), ctx_product_id = map_option product_id chosen,
          ctx_conversation_id = map_option conversation_id conv\<rparr>
         sequence sessionStart (r7, i1);
     Some (evs, c')
   })"

fun assignTiers ::
  "env \<Rightarrow> social_post list \<Rightarrow> (uuid \<rightharpoonup> performance) \<Rightarrow> nat \<Rightarrow> (uuid \<rightharpoonup> performance) \<times> nat" where
  "assignTiers E [] m r = (m, r)"
| "assignTiers E (post # rest) m r =
     (let (t, r1) = getPerformanceTier E CONFIG_postPerformance_distribution r
      in assignTiers E rest (m(post_id post \<mapsto> t)) r1)"

definition generateCustomerJourneys ::
  "env \<Rightarrow> scale \<Rightarrow> workspace list \<Rightarrow> social_post lookup \<Rightarrow> product lookup \<Rightarrow> conversation list
   \<Rightarrow> cursor \<Rightarrow> (journey_event list \<times> cursor) option" where
  "generateCustomerJourneys E sc wss workspacePosts workspaceProducts allConversations c =
     for_each wss (\<lambda>ws (r, i). do {
       posts \<leftarrow> workspacePosts (workspace_id ws);
       let prods = workspaceProducts (workspace_id ws);
       let (postPerformance, r1) = assignTiers E posts Map.empty r;
       for_range 0 (customersPerWorkspace sc)
         (\<lambda>_. newSession E sc ws posts prods postPerformance allConversations) (r1, i)
     }) c"

section \<open>Stages 11 to 13: daily aggregates, customer profiles, demand forecasts\<close>

text \<open>\<^verbatim>\<open>products.filter(() => randomBool(0.1))\<close>: one draw for each product, in order.\<close>

fun sampleProducts :: "env \<Rightarrow> product list \<Rightarrow> nat \<Rightarrow> product list \<times> nat" where
  "sampleProducts E [] r = ([], r)"
| "sampleProducts E (p # ps) r =
     (let (keep, r1) = randomBool E 0.1 r;
          (rest, r2) = sampleProducts E ps r1
      in (if keep then p # rest else rest, r2))"

text \<open>
  The derived metrics of an aggregate row are not modelled; the draws that fill them are
  counted (7 or 6 before the identifier of the workspace row, with or without the weekend
  multiplier, 8 after it; 6 and 5 around the identifier of a product row).
\<close>

definition newDailyAggregates ::
  "env \<Rightarrow> scale \<Rightarrow> workspace \<Rightarrow> product list option \<Rightarrow> nat \<Rightarrow> cursor
   \<Rightarrow> (daily_aggregate list \<times> cursor) option" where
  "newDailyAggregates E sc ws prods day = (\<lambda>(r, i). do {
     let metricDate = daysAgo E (int (daysOfHistory sc) - int day);
     let dayOfWeek = getDay E metricDate;
     let isWeekend = (dayOfWeek = 0 \<or> dayOfWeek = 6);
     let r1 = (if isWeekend then unusedDraws 1 r else r);
     let r2 = unusedDraws 6 r1;
     let (aid, i1) = generateId E i;
     let r3 = unusedDraws 8 r2;
     let wsAggregate =
           \<lparr>aggregate_id = aid, aggregate_workspace_id = workspace_id ws,
            aggregate_product_id = None, aggregate_metric_date = metricDate,
            day_of_week = dayOfWeek, is_weekend = isWeekend\<rparr>;
     ps \<leftarrow> prods;
     let (sampled, r4) = sampleProducts E ps r3;
     (rows, c') \<leftarrow>
       for_each sampled (\<lambda>p (r, i).
         let r' = unusedDraws 6 r;
             (aid', i') = generateId E i;
             r'' = unusedDraws 5 r'
         in Some ([\<lparr>aggregate_id = aid', aggregate_workspace_id = workspace_id ws,
                    aggregate_product_id = Some (product_id p),
                    aggregate_metric_date = metricDate,
                    day_of_week = dayOfWeek, is_weekend = isWeekend\<rparr>], (r'', i'))) (r4, i1);
     Some (wsAggregate # rows, c')
   })"

definition generateDailyAggregates ::
  "env \<Rightarrow> scale \<Rightarrow> workspace list \<Rightarrow> product lookup \<Rightarrow> cursor
   \<Rightarrow> (daily_aggregate list \<times> cursor) option" where
  "generateDailyAggregates E sc wss workspaceProducts c =
     for_each wss (\<lambda>ws.
       for_range 0 (daysOfHistory sc)
         (newDailyAggregates E sc ws (workspaceProducts (workspace_id ws)))) c"

text \<open>
  The decision of \<^verbatim>\<open>generateCustomerProfiles\<close>: the segment with its churn
  probability, next-purchase probability and predicted lifetime value.
\<close>

definition deriveSegment ::
  "env \<Rightarrow> nat \<Rightarrow> int \<Rightarrow> int \<Rightarrow> nat \<Rightarrow> nat \<Rightarrow> (string \<times> real \<times> real \<times> int) \<times> nat" where
  "deriveSegment E totalPurchases totalRevenue daysSinceLastSeen totalTryons r =
     (if totalPurchases \<ge> 3 \<or> totalRevenue > 30000 then
        (let (churnProb, r1) = randomFloat E 0.05 0.15 r;
             (nextPurchaseProb, r2) = randomFloat E 0.4 0.7 r1;
             (f, r3) = randomFloat E 2 5 r2
         in ((''high_value'', churnProb, nextPurchaseProb,
              Math_round (real_of_int totalRevenue * f)), r3))
      else if totalPurchases \<ge> 1 then
        (let (churnProb, r1) = randomFloat E 0.15 0.35 r;
             (nextPurchaseProb, r2) = randomFloat E 0.2 0.4 r1;
             (f, r3) = randomFloat E 1.5 3 r2
         in ((''regular'', churnProb, nextPurchaseProb,
              Math_round (real_of_int totalRevenue * f)), r3))
      else if daysSinceLastSeen > 60 then
        (let (churnProb, r1) = randomFloat E 0.85 0.98 r;
             (nextPurchaseProb, r2) = randomFloat E 0.01 0.05 r1
         in ((''churned'', churnProb, nextPurchaseProb, 0), r2))
      else if daysSinceLastSeen > 30 then
        (let (churnProb, r1) = randomFloat E 0.5 0.8 r;
             (nextPurchaseProb, r2) = randomFloat E 0.05 0.15 r1;
             (ltv, r3) = randomInt E 2000 8000 r2
         in ((''at_risk'', churnProb, nextPurchaseProb, ltv), r3))
      else if totalTryons > 0 then
        (let (churnProb, r1) = randomFloat E 0.3 0.5 r;
             (nextPurchaseProb, r2) = randomFloat E 0.1 0.25 r1;
             (ltv, r3) = randomInt E 5000 15000 r2
         in ((''casual'', churnProb, nextPurchaseProb, ltv), r3))
      else
        (let (churnProb, r1) = randomFloat E 0.4 0.6 r;
             (nextPurchaseProb, r2) = randomFloat E 0.05 0.1 r1;
             (ltv, r3) = randomInt E 1000 5000 r2
         in ((''casual'', churnProb, nextPurchaseProb, ltv), r3)))"

definition totalPurchasesOf :: "conversation list \<Rightarrow> nat" where
  "totalPurchasesOf convs = length (filter resulted_in_purchase convs)"

definition totalRevenueOf :: "conversation list \<Rightarrow> int" where
  "totalRevenueOf convs =
     foldl (\<lambda>sum cv. sum + (case purchase_amount_cents cv of None \<Rightarrow> 0 | Some a \<Rightarrow> a)) 0 convs"

definition totalTryonsOf :: "conversation list \<Rightarrow> nat" where
  "totalTryonsOf convs = length (filter resulted_in_tryon convs)"

definition daysSinceLastSeenOf :: "env \<Rightarrow> conversation list \<Rightarrow> int" where
  "daysSinceLastSeenOf E convs = (now E - last_message_at (last convs)) div 86400000"

text \<open>
  Reading \<^verbatim>\<open>conversations[0].workspace_id\<close> throws on an empty list and
  \<^verbatim>\<open>workspace.id\<close> when no workspace was found.
\<close>

definition newProfile ::
  "env \<Rightarrow> workspace list \<Rightarrow> string \<times> conversation list \<Rightarrow> cursor
   \<Rightarrow> (customer_profile \<times> cursor) option" where
  "newProfile E wss = (\<lambda>(customerId, convs) (r, i). do {
     first \<leftarrow> (case convs of [] \<Rightarrow> None | cv # _ \<Rightarrow> Some cv);
     let found = List.find (\<lambda>w. workspace_id w = conversation_workspace_id first) wss;
     let totalPurchases = totalPurchasesOf convs;
     let totalRevenue = totalRevenueOf convs;
     let totalTryons = totalTryonsOf convs;
     let lastSeen = last_message_at (last convs);
     let daysSinceLastSeen = daysSinceLastSeenOf E convs;
     let ((segment, churnProb, nextPurchaseProb, predictedLtv), r1) =
           deriveSegment E totalPurchases totalRevenue daysSinceLastSeen totalTryons r;
     let (pid, i1) = generateId E i;
     w \<leftarrow> found;
     let r2 = unusedDraws 3 r1;
     Some (\<lparr>profile_id = pid, profile_customer_id = customerId,
            profile_workspace_id = workspace_id w,
            first_seen_at = started_at first, last_seen_at = lastSeen,
            total_sessions = length convs, total_tryons = totalTryons,
            profile_total_purchases = totalPurchases,
            profile_total_revenue_cents = totalRevenue,
            avg_order_value_cents =
              (if totalPurchases > 0
               then Math_round (real_of_int totalRevenue / real totalPurchases) else 0),
            predicted_ltv_cents = predictedLtv,
            churn_probability = roundTo4 churnProb,
            next_purchase_probability = roundTo4 nextPurchaseProb,
            customer_segment = segment\<rparr>, (r2, i1))
   })"

definition generateCustomerProfiles ::
  "env \<Rightarrow> workspace list \<Rightarrow> (string \<times> conversation list) list \<Rightarrow> cursor
   \<Rightarrow> (customer_profile list \<times> cursor) option" where
  "generateCustomerProfiles E wss customerConversations c =
     for_each customerConversations (\<lambda>entry c. do {
       (pr, c') \<leftarrow> newProfile E wss entry c;
       Some ([pr], c')
     }) c"

definition newForecast :: "env \<Rightarrow> product \<Rightarrow> int \<Rightarrow> cursor \<Rightarrow> demand_forecast \<times> cursor" where
  "newForecast E p horizon = (\<lambda>(r, i).
     let (predictedDemand, r1) = randomInt E 5 50 r;
         (variance, r2) = randomFloat E 0.1 0.3 r1;
         (fid, i1) = generateId E i;
         (confidence, r3) = randomFloat E 0.7 0.95 r2
     in (\<lparr>forecast_id = fid, forecast_product_id = product_id p,
          forecast_workspace_id = product_workspace_id p,
          forecast_horizon_days = horizon, predicted_demand = predictedDemand,
          confidence_interval_low = Math_round (real_of_int predictedDemand * (1 - variance)),
          confidence_interval_high = Math_round (real_of_int predictedDemand * (1 + variance)),
          prediction_confidence = roundTo4 confidence\<rparr>, (r3, i1)))"

definition generateDemandForecasts ::
  "env \<Rightarrow> product list \<Rightarrow> cursor \<Rightarrow> (demand_forecast list \<times> cursor) option" where
  "generateDemandForecasts E prods c =
     for_each (take 50 prods) (\<lambda>p.
       for_each [7, 14, 30] (\<lambda>horizon c.
         let (f, c') = newForecast E p horizon c in Some ([f], c'))) c"

section \<open>The pipeline\<close>

text \<open>
  \<^verbatim>\<open>generate\<close> runs the thirteen stages in order and returns \<^verbatim>\<open>this.data\<close>, or
  \<open>None\<close> when a stage throws. The lookups \<^verbatim>\<open>productVariants\<close> and
  \<^verbatim>\<open>postBindings\<close> are written and never read; they are left out.
\<close>

definition generate :: "env \<Rightarrow> scale \<Rightarrow> dataset option" where
  "generate E sc = do {
     (wss, accts, wp0, wposts0, c1) \<leftarrow> generateWorkspaces E sc (0, 0);
     (prods, workspaceProducts, c2) \<leftarrow> generateProducts E sc wss accts wp0 c1;
     (vars, c3) \<leftarrow> generateProductVariants E sc prods c2;
     (hist, c4) \<leftarrow> generateInventoryHistory E sc vars c3;
     (posts, workspacePosts, c5) \<leftarrow> generateSocialPosts E sc wss accts workspaceProducts wposts0 c4;
     (metrics, c6) \<leftarrow> generatePostMetrics E posts c5;
     (binds, c7) \<leftarrow> generateGarmentBindings E prods posts metrics c6;
     (convs, customerConversations, c8) \<leftarrow> generateConversations E sc wss accts prods binds c7;
     (ords, c9) \<leftarrow> generateOrders E sc wss accts workspaceProducts convs binds c8;
     (journeys, c10) \<leftarrow>
       generateCustomerJourneys E sc wss workspacePosts workspaceProducts convs c9;
     (aggs, c11) \<leftarrow> generateDailyAggregates E sc wss workspaceProducts c10;
     (profiles, c12) \<leftarrow> generateCustomerProfiles E wss customerConversations c11;
     (forecasts, c13) \<leftarrow> generateDemandForecasts E prods c12;
     Some \<lparr>workspaces = wss, accounts = accts, products = prods, product_variants = vars,
           inventory_history = hist, social_posts = posts, post_metrics = metrics,
           garment_bindings = binds, conversations = convs, orders = ords,
           customer_journeys = journeys, daily_aggregates = aggs,
           customer_profiles = profiles, demand_forecasts = forecasts\<rparr>
   }"

section \<open>A host in the UTC time zone\<close>

text \<open>
  A concrete environment, for evaluating the generator: the calendar of a host whose
  local time is UTC (a day has 86400000 ms, the epoch was a Thursday, the month follows
  from the day number by the usual civil-calendar computation).
\<close>

definition year_of_era :: "int \<Rightarrow> int" where
  "year_of_era doe = (doe - doe div 1460 + doe div 36524 - doe div 146096) div 365"

definition day_of_year :: "int \<Rightarrow> int \<Rightarrow> int" where
  "day_of_year doe yoe = doe - (365 * yoe + yoe div 4 - yoe div 100)"

definition month_index :: "int \<Rightarrow> nat" where
  "month_index mp = nat (if mp < 10 then mp + 2 else mp - 10)"

definition month_of_day_of_era :: "int \<Rightarrow> nat" where
  "month_of_day_of_era doe = month_index ((5 * day_of_year doe (year_of_era doe) + 2) div 153)"

definition utc_month :: "int \<Rightarrow> nat" where
  "utc_month t = month_of_day_of_era ((t div 86400000 + 719468) mod 146097)"

definition utc_host :: "(nat \<Rightarrow> real) \<Rightarrow> int \<Rightarrow> env" where
  "utc_host stream t0 =
     \<lparr>random = stream, uuidv4 = (\<lambda>n. n), now = t0,
      plusDays = (\<lambda>t n. t + n * 86400000),
      getMonth = utc_month,
      getDay = (\<lambda>t. nat ((t div 86400000 + 4) mod 7)),
      setHours = (\<lambda>t h m s. (t div 86400000) * 86400000 + h * 3600000 + m * 60000 + s * 1000
                              + t mod 1000)\<rparr>"

section \<open>Stated properties\<close>

text \<open>
  A rate range lies within \<open>[0, 1]\<close> when both of its ends do (the order of the two ends
  is not used).
\<close>

definition within_unit :: "rate_range \<Rightarrow> bool" where
  "within_unit b = (0 \<le> range_min b \<and> range_min b \<le> 1 \<and> 0 \<le> range_max b \<and> range_max b \<le> 1)"

definition rates_within_unit :: "funnelRates \<Rightarrow> bool" where
  "rates_within_unit rates =
     (within_unit (engagementToDM rates) \<and> within_unit (dmToPhotoRequest rates)
      \<and> within_unit (photoRequestToReceived rates) \<and> within_unit (photoToTryon rates)
      \<and> within_unit (tryonToLinkClick rates) \<and> within_unit (linkClickToPurchase rates))"

text \<open>The funnel chain: each stage count is at most the count of the stage before it.\<close>

definition funnel_chain :: "'a funnelMetrics_scheme \<Rightarrow> bool" where
  "funnel_chain m =
     (total_purchases m \<le> successful_generations m
      \<and> successful_generations m \<le> total_photos_received m
      \<and> total_photos_received m \<le> total_photo_requests m
      \<and> total_photo_requests m \<le> total_dm_conversations m
      \<and> total_dm_conversations m \<le> total_triggers m)"

text \<open>A percentage is a finite number between 0 and 100.\<close>

fun percentage :: "number \<Rightarrow> bool" where
  "percentage (Finite x) = (0 \<le> x \<and> x \<le> 100)"
| "percentage x = False"

text \<open>The try-on flag of a conversation agrees with its state and its purchase flag.\<close>

definition tryon_consistent :: "conversation \<Rightarrow> bool" where
  "tryon_consistent cv =
     ((resulted_in_tryon cv \<longleftrightarrow>
         conversation_state cv \<in> {Some ''processing_tryon'', Some ''result_sent'', Some ''completed''})
      \<and> (conversation_state cv = Some ''completed'' \<longrightarrow> resulted_in_tryon cv)
      \<and> (resulted_in_purchase cv \<longrightarrow> resulted_in_tryon cv))"

text \<open>The message count is in the sampled range and is split into bot and user messages.\<close>

definition messages_split :: "conversation \<Rightarrow> bool" where
  "messages_split cv =
     (2 \<le> message_count cv \<and> message_count cv \<le> 15
      \<and> bot_messages cv + user_messages cv = message_count cv)"

definition ledger_consistent :: "inventory_record \<Rightarrow> bool" where
  "ledger_consistent h =
     (change_amount h = new_quantity h - previous_quantity h
      \<and> 0 \<le> new_quantity h \<and> new_quantity h \<le> 500
      \<and> previous_quantity h \<noteq> new_quantity h)"


text \<open>
  The events of a session, in emission order: the timestamps increase, exactly one event is
  flagged first and exactly one last, and some event carries both flags exactly when the
  session has a single event.
\<close>

definition session_ordered :: "journey_event list \<Rightarrow> bool" where
  "session_ordered evs =
     (sorted_wrt (\<lambda>a b. a < b) (map event_timestamp evs)
      \<and> sorted (map event_timestamp evs)
      \<and> length (filter is_session_first_event evs) = 1
      \<and> length (filter is_session_last_event evs) = 1
      \<and> ((\<exists>j \<in> set evs. is_session_first_event j \<and> is_session_last_event j) \<longleftrightarrow> length evs = 1))"

definition session_blocks :: "env \<Rightarrow> nat \<Rightarrow> journey_event list \<Rightarrow> nat \<Rightarrow> bool" where
  "session_blocks E i out i' =
     (i \<le> i' \<and>
      (\<exists>sess. out = concat (map snd sess) \<and> distinct (map fst sess)
         \<and> fst ` set sess \<subseteq> {i..<i'}
         \<and> (\<forall>(k, b) \<in> set sess. b \<noteq> [] \<and> session_ordered b
               \<and> (\<forall>j \<in> set b. session_id j = uuidv4 E k))))"

definition fresh_ids :: "env \<Rightarrow> ('a \<Rightarrow> uuid) \<Rightarrow> nat \<Rightarrow> 'a list \<Rightarrow> nat \<Rightarrow> bool" where
  "fresh_ids E key i xs i' =
     (i \<le> i' \<and> (\<exists>ks. map key xs = map (uuidv4 E) ks \<and> distinct ks \<and> set ks \<subseteq> {i..<i'}))"

text \<open>A foreign key resolves to exactly one record of the parent collection.\<close>

definition resolves_once :: "('p \<Rightarrow> uuid) \<Rightarrow> 'p list \<Rightarrow> uuid \<Rightarrow> bool" where
  "resolves_once key parents k = (length (filter (\<lambda>p. key p = k) parents) = 1)"

text \<open>
  Referential integrity of a dataset: each of the seven foreign keys below resolves to
  exactly one record of its parent collection.
\<close>

definition referential_integrity :: "dataset \<Rightarrow> bool" where
  "referential_integrity d =
     ((\<forall>p \<in> set (products d). resolves_once workspace_id (workspaces d) (product_workspace_id p))
      \<and> (\<forall>v \<in> set (product_variants d). resolves_once product_id (products d) (variant_product_id v))
      \<and> (\<forall>p \<in> set (social_posts d). resolves_once workspace_id (workspaces d) (post_workspace_id p))
      \<and> (\<forall>b \<in> set (garment_bindings d).
            resolves_once post_id (social_posts d) (binding_post_id b)
            \<and> resolves_once product_id (products d) (binding_product_id b))
      \<and> (\<forall>ord \<in> set (orders d). resolves_once workspace_id (workspaces d) (order_workspace_id ord))
      \<and> (\<forall>j \<in> set (customer_journeys d).
            resolves_once workspace_id (workspaces d) (journey_workspace_id j)))"

text \<open>The number of records of each of the fourteen collections, in the order of the pipeline.\<close>

definition cardinalities :: "dataset \<Rightarrow> nat list" where
  "cardinalities d =
     [length (workspaces d), length (accounts d), length (products d),
      length (product_variants d), length (inventory_history d), length (social_posts d),
      length (post_metrics d), length (garment_bindings d), length (conversations d),
      length (orders d), length (customer_journeys d), length (daily_aggregates d),
      length (customer_profiles d), length (demand_forecasts d)]"

text \<open>
  The collections whose loops run a number of times read from the scale profile alone:
  workspaces, accounts, products, variants, posts, conversations, orders and forecasts.
\<close>

definition scale_cardinalities :: "dataset \<Rightarrow> nat list" where
  "scale_cardinalities d =
     [length (workspaces d), length (accounts d), length (products d),
      length (product_variants d), length (social_posts d), length (conversations d),
      length (orders d), length (demand_forecasts d)]"

text \<open>
  The bounds of those loops: one account per workspace, the per-workspace counts of the
  profile, and three forecast horizons for each of the first 50 products.
\<close>

definition expected_cardinalities :: "scale \<Rightarrow> nat list" where
  "expected_cardinalities sc =
     [scale_workspaces sc, scale_workspaces sc,
      scale_workspaces sc * productsPerWorkspace sc,
      scale_workspaces sc * productsPerWorkspace sc * variantsPerProduct sc,
      scale_workspaces sc * postsPerWorkspace sc,
      scale_workspaces sc * conversationsPerWorkspace sc,
      scale_workspaces sc * ordersPerWorkspace sc,
      min 50 (scale_workspaces sc * productsPerWorkspace sc) * 3]"

section \<open>Sample inputs\<close>

text \<open>A table of two items whose weights are both zero.\<close>

definition two_zero_weights :: "string weighted list" where
  "two_zero_weights = [\<lparr>item = ''a'', weight = 0\<rparr>, \<lparr>item = ''b'', weight = 0\<rparr>]"

text \<open>
  A scale profile of one workspace with one record of each kind and one day of history, a
  host whose random stream is constant, and a workspace with its account.
\<close>

definition tiny :: scale where
  "tiny = \<lparr>scale_workspaces = 1, productsPerWorkspace = 1, variantsPerProduct = 1,
      postsPerWorkspace = 1, conversationsPerWorkspace = 1, ordersPerWorkspace = 1,
      daysOfHistory = 1, customersPerWorkspace = 1\<rparr>"

definition constant_host :: "real \<Rightarrow> env" where
  "constant_host u = utc_host (\<lambda>_. u) 1700000000000"

definition workspace0 :: workspace where
  "workspace0 = \<lparr>workspace_id = 0, workspace_created_at = 1697408000000\<rparr>"

definition account0 :: account where
  "account0 = \<lparr>account_id = 1, account_workspace_id = 0, account_created_at = 1697408000000\<rparr>"

text \<open>A variant with five units in stock.\<close>

definition variant0 :: variant where
  "variant0 = \<lparr>variant_id = 3, variant_product_id = 2, variant_size = ''XS'',
     variant_price_cents = 4000, inventory_quantity = 5, available = True,
     variant_created_at = 1699913600000\<rparr>"


text \<open>A post without a product, and the profile \<open>tiny\<close> with two customers.\<close>

definition post0 :: social_post where
  "post0 = \<lparr>post_id = 5, post_workspace_id = 0, post_account_id = 1, post_product_id = None,
     posted_at = 1699950000000, post_created_at = 1699950000000\<rparr>"

definition two_customers :: scale where
  "two_customers = tiny\<lparr>customersPerWorkspace := Suc (Suc 0)\<rparr>"

text \<open>The profile \<open>tiny\<close> with two days of history, and with two workspaces.\<close>

definition two_days :: scale where
  "two_days = tiny\<lparr>daysOfHistory := Suc (Suc 0)\<rparr>"

definition two_workspaces :: scale where
  "two_workspaces = tiny\<lparr>scale_workspaces := Suc (Suc 0)\<rparr>"

section \<open>Rounding to doubles\<close>

lemma round_half_even_int [simp]: "round_half_even (of_int n) = n"
  by (simp add: round_half_even_def)

lemma round_half_even_bounds:
  "of_int (round_half_even t) \<le> t + 1 / 2" "t - 1 / 2 \<le> of_int (round_half_even t)"
  unfolding round_half_even_def Let_def by (auto; linarith)+

lemma round_half_even_mono:
  assumes "s \<le> t"
  shows "round_half_even s \<le> round_half_even t"
proof (cases "\<lfloor>s\<rfloor> = \<lfloor>t\<rfloor>")
  case True
  then show ?thesis
    using assms unfolding round_half_even_def Let_def by (auto; linarith)
next
  case False
  then have "\<lfloor>s\<rfloor> + 1 \<le> \<lfloor>t\<rfloor>"
    using assms floor_mono [of s t] by linarith
  moreover have "round_half_even s \<le> \<lfloor>s\<rfloor> + 1"
    unfolding round_half_even_def Let_def by auto
  moreover have "\<lfloor>t\<rfloor> \<le> round_half_even t"
    unfolding round_half_even_def Let_def by auto
  ultimately show ?thesis
    by linarith
qed

lemma round_half_even_minus: "round_half_even (- t) = - round_half_even t"
proof (cases "t \<in> \<int>")
  case True
  then obtain n where "t = of_int n"
    by (auto elim: Ints_cases)
  then show ?thesis
    by (simp flip: of_int_minus)
next
  case False
  then have "t \<noteq> of_int \<lfloor>t\<rfloor>"
    by (metis Ints_of_int)
  then have "\<lceil>t\<rceil> = \<lfloor>t\<rfloor> + 1"
    by (simp add: ceiling_altdef)
  then have f: "\<lfloor>- t\<rfloor> = - \<lfloor>t\<rfloor> - 1"
    by (simp add: ceiling_def)
  have "0 < t - of_int \<lfloor>t\<rfloor>"
    using False by (metis Ints_of_int diff_gt_0_iff_gt floor_correct less_eq_real_def)
  then show ?thesis
    unfolding round_half_even_def Let_def f by (auto; linarith?)
qed


lemma exponent_bounds:
  assumes "x \<noteq> 0"
  shows "2 powi exponent x \<le> \<bar>x\<bar>" and "\<bar>x\<bar> < 2 powi (exponent x + 1)"
proof -
  have "2 powi exponent x \<le> \<bar>x\<bar> \<and> \<bar>x\<bar> < 2 powi (exponent x + 1)"
  proof (cases "1 \<le> \<bar>x\<bar>")
    case True
    define n where "n = \<lfloor>\<bar>x\<bar>\<rfloor>"
    have n: "0 < n"
      using True unfolding n_def by linarith
    have b: "2 ^ nat (bitlen n - 1) \<le> n" "n < 2 ^ nat (bitlen n)"
      using bitlen_bounds [OF n] by simp_all
    have pos: "1 \<le> bitlen n"
    proof (rule ccontr)
      assume "\<not> 1 \<le> bitlen n"
      then have "nat (bitlen n) = 0"
        by simp
      with b(2) n show False
        by simp
    qed
    have e: "exponent x = bitlen n - 1"
      using True by (simp add: exponent_def n_def)
    have "(2::real) powi (bitlen n - 1) = 2 ^ nat (bitlen n - 1)"
      using pos by (simp add: power_int_def)
    also have "\<dots> = of_int (2 ^ nat (bitlen n - 1))"
      by simp
    also have "\<dots> \<le> of_int n"
      using b(1) by (simp only: of_int_le_iff)
    also have "\<dots> \<le> \<bar>x\<bar>"
      unfolding n_def by simp
    finally have lo: "2 powi exponent x \<le> \<bar>x\<bar>"
      unfolding e .
    have "\<bar>x\<bar> < of_int (n + 1)"
      unfolding n_def by linarith
    also have "\<dots> \<le> of_int (2 ^ nat (bitlen n))"
      using b(2) by (simp only: of_int_le_iff)
    also have "\<dots> = (2::real) powi (bitlen n)"
      using pos by (simp add: power_int_def)
    finally have "\<bar>x\<bar> < 2 powi (exponent x + 1)"
      unfolding e by simp
    with lo show ?thesis
      by simp
  next
    case False
    define y where "y = 1 / \<bar>x\<bar>"
    define m where "m = \<lceil>y\<rceil> - 1"
    have x: "0 < \<bar>x\<bar>" "\<bar>x\<bar> < 1"
      using False assms by simp_all
    then have y: "1 < y"
      unfolding y_def by simp
    then have m: "0 < m"
      unfolding m_def by linarith
    have b: "2 ^ nat (bitlen m - 1) \<le> m" "m < 2 ^ nat (bitlen m)"
      using bitlen_bounds [OF m] by simp_all
    have pos: "1 \<le> bitlen m"
    proof (rule ccontr)
      assume "\<not> 1 \<le> bitlen m"
      then have "nat (bitlen m) = 0"
        by simp
      with b(2) m show False
        by simp
    qed
    have e: "exponent x = - bitlen m"
      using False by (simp add: exponent_def m_def y_def)
    have my: "of_int m < y" "y \<le> of_int m + 1"
      unfolding m_def by linarith+
    have "y \<le> of_int (m + 1)"
      using my(2) by simp
    also have "\<dots> \<le> of_int (2 ^ nat (bitlen m))"
      using b(2) by (simp only: of_int_le_iff)
    also have "\<dots> = (2::real) ^ nat (bitlen m)"
      by simp
    finally have "1 / 2 ^ nat (bitlen m) \<le> 1 / y"
      using y by (intro divide_left_mono) simp_all
    moreover have "(2::real) powi (- bitlen m) = 1 / 2 ^ nat (bitlen m)"
      using pos by (simp add: power_int_def inverse_eq_divide power_one_over)
    ultimately have lo: "2 powi exponent x \<le> \<bar>x\<bar>"
      unfolding e y_def by simp
    have "(2::real) ^ nat (bitlen m - 1) = of_int (2 ^ nat (bitlen m - 1))"
      by simp
    also have "\<dots> \<le> of_int m"
      using b(1) by (simp only: of_int_le_iff)
    also have "\<dots> < y"
      by (rule my(1))
    finally have "1 / y < 1 / 2 ^ nat (bitlen m - 1)"
      using y by (intro divide_strict_left_mono) simp_all
    moreover have "(2::real) powi (- bitlen m + 1) = 1 / 2 ^ nat (bitlen m - 1)"
    proof (cases "bitlen m = 1")
      case True
      then show ?thesis
        by simp
    next
      case False
      then have "- bitlen m + 1 < 0" "nat (bitlen m - 1) = nat (- (- bitlen m + 1))"
        using pos by simp_all
      then show ?thesis
        by (simp add: power_int_def inverse_eq_divide power_one_over)
    qed
    ultimately have "\<bar>x\<bar> < 2 powi (exponent x + 1)"
      unfolding e y_def by simp
    with lo show ?thesis
      by simp
  qed
  then show "2 powi exponent x \<le> \<bar>x\<bar>" and "\<bar>x\<bar> < 2 powi (exponent x + 1)"
    by simp_all
qed


lemma exponent_unique:
  assumes "2 powi e \<le> \<bar>x\<bar>" and "\<bar>x\<bar> < 2 powi (e + 1)"
  shows "exponent x = e"
proof -
  have "(0::real) < 2 powi e"
    by simp
  with assms(1) have "0 < \<bar>x\<bar>"
    by linarith
  then have x: "x \<noteq> 0"
    by simp
  note b = exponent_bounds [OF x]
  have "\<not> e + 1 \<le> exponent x"
  proof
    assume "e + 1 \<le> exponent x"
    then have "(2::real) powi (e + 1) \<le> 2 powi exponent x"
      by (intro power_int_increasing) simp_all
    with b(1) assms(2) show False
      by linarith
  qed
  moreover have "\<not> exponent x + 1 \<le> e"
  proof
    assume "exponent x + 1 \<le> e"
    then have "(2::real) powi (exponent x + 1) \<le> 2 powi e"
      by (intro power_int_increasing) simp_all
    with b(2) assms(1) show False
      by linarith
  qed
  ultimately show ?thesis
    by linarith
qed

lemma exponent_minus [simp]: "exponent (- x) = exponent x"
  by (simp add: exponent_def)

lemma exponent_mono:
  assumes "x \<noteq> 0" "\<bar>x\<bar> \<le> \<bar>y\<bar>"
  shows "exponent x \<le> exponent y"
proof (rule ccontr)
  assume "\<not> exponent x \<le> exponent y"
  then have "exponent y + 1 \<le> exponent x"
    by simp
  then have "(2::real) powi (exponent y + 1) \<le> 2 powi exponent x"
    by (intro power_int_increasing) simp_all
  moreover have "y \<noteq> 0"
    using assms by auto
  ultimately show False
    using exponent_bounds(1) [OF assms(1)] exponent_bounds(2) [of y] assms(2) by linarith
qed

lemma ulp_pos [simp]: "0 < ulp x"
  by (simp add: ulp_def)

lemma ulp_nonneg [simp]: "0 \<le> ulp x"
  by (simp add: ulp_def)

lemma ulp_neq_zero [simp]: "ulp x \<noteq> 0"
  by (simp add: ulp_def)

lemma ulp_minus [simp]: "ulp (- x) = ulp x"
  by (simp add: ulp_def)

lemma to_double_zero [simp]: "to_double 0 = 0"
  by (simp add: to_double_def)

lemma to_double_minus: "to_double (- x) = - to_double x"
  by (simp add: to_double_def round_half_even_minus)

lemma to_double_nonneg:
  assumes "0 \<le> x"
  shows "0 \<le> to_double x"
proof -
  have "0 \<le> x / ulp x"
    by (rule divide_nonneg_pos [OF assms ulp_pos])
  then have "round_half_even 0 \<le> round_half_even (x / ulp x)"
    by (rule round_half_even_mono)
  then have "0 \<le> round_half_even (x / ulp x)"
    using round_half_even_int [of 0] by simp
  then show ?thesis
    by (simp add: to_double_def)
qed

lemma to_double_nonpos:
  assumes "x \<le> 0"
  shows "to_double x \<le> 0"
  using to_double_nonneg [of "- x"] assms by (simp add: to_double_minus)

text \<open>A multiple of a power of two that is at least the spacing at the number is a double.\<close>

lemma to_double_multiple:
  assumes "z = 2 powi j * of_int k" and "max (exponent z) (- 1022) - 52 \<le> j"
  shows "to_double z = z"
proof (cases "z = 0")
  case True
  then show ?thesis
    by simp
next
  case False
  define i where "i = max (exponent z) (- 1022) - 52"
  have u: "ulp z = 2 powi i"
    by (simp add: ulp_def i_def)
  have ij: "0 \<le> j - i"
    using assms(2) by (simp add: i_def)
  have "(2::real) powi j = 2 powi i * 2 powi (j - i)"
    by (simp flip: power_int_add)
  also have "(2::real) powi (j - i) = of_int (2 ^ nat (j - i))"
    using ij by (simp add: power_int_def)
  finally have "z = ulp z * of_int (2 ^ nat (j - i) * k)"
    unfolding u using assms(1) by simp
  then have "z / ulp z = ulp z * of_int (2 ^ nat (j - i) * k) / ulp z"
    by simp
  then have "z / ulp z = of_int (2 ^ nat (j - i) * k)"
    by (simp only: nonzero_mult_div_cancel_left [OF ulp_neq_zero])
  then have "round_half_even (z / ulp z) = 2 ^ nat (j - i) * k"
    by (simp only: round_half_even_int)
  then have "to_double z = ulp z * of_int (2 ^ nat (j - i) * k)"
    using False by (simp add: to_double_def)
  also have "\<dots> = ulp z * (z / ulp z)"
    using \<open>z / ulp z = of_int (2 ^ nat (j - i) * k)\<close> by simp
  also have "\<dots> = z"
    by simp
  finally show ?thesis .
qed

lemma exponent_power [simp]: "exponent (2 powi n) = n"
  by (rule exponent_unique) (simp_all add: power_int_strict_increasing)

lemma to_double_power:
  assumes "- 1074 \<le> n"
  shows "to_double (2 powi n) = 2 powi n"
  using assms by (intro to_double_multiple [where j = n and k = 1]) simp_all

lemma to_double_int:
  assumes "\<bar>n\<bar> \<le> 2 ^ 53"
  shows "to_double (of_int n) = of_int n"
proof (cases "\<bar>n\<bar> = 2 ^ 53")
  case True
  then have "real_of_int n = 2 powi 53 \<or> real_of_int n = - (2 powi 53)"
    by (auto simp: abs_if split: if_splits)
  then show ?thesis
    using to_double_power [of 53] by (auto simp: to_double_minus)
next
  case False
  show ?thesis
  proof (cases "n = 0")
    case True
    then show ?thesis
      by simp
  next
    case n: False
    have "\<bar>n\<bar> < 2 ^ 53"
      using assms False by simp
    then have "\<bar>real_of_int n\<bar> < 2 powi 53"
      by (metis numeral_power_eq_of_int_cancel_iff of_int_abs of_int_less_iff of_int_numeral
          of_int_power power_int_numeral)
    moreover have "2 powi exponent (real_of_int n) \<le> \<bar>real_of_int n\<bar>"
      using n by (intro exponent_bounds) simp
    ultimately have "(2::real) powi exponent (real_of_int n) < 2 powi 53"
      by linarith
    have "exponent (real_of_int n) < 53"
    proof (rule ccontr)
      assume "\<not> exponent (real_of_int n) < 53"
      then have "(2::real) powi 53 \<le> 2 powi exponent (real_of_int n)"
        by (intro power_int_increasing) simp_all
      with \<open>(2::real) powi exponent (real_of_int n) < 2 powi 53\<close> show False
        by linarith
    qed
    then show ?thesis
      by (intro to_double_multiple [where j = 0 and k = n]) simp_all
  qed
qed


lemma two_powi_mult: "(2::real) powi a * 2 powi b = 2 powi (a + b)"
  by (simp add: power_int_add)

text \<open>The binade of a positive number: rounding stays between its two ends.\<close>

lemma to_double_upper:
  assumes "0 < x"
  shows "to_double x \<le> 2 powi (max (exponent x) (- 1022) + 1)"
proof -
  define e where "e = max (exponent x) (- 1022)"
  have u: "ulp x = 2 powi (e - 52)"
    by (simp add: ulp_def e_def)
  have "x < 2 powi (exponent x + 1)"
    using exponent_bounds(2) [of x] assms by simp
  also have "\<dots> \<le> 2 powi (e + 1)"
    by (intro power_int_increasing) (simp_all add: e_def)
  finally have "x \<le> 2 powi (e + 1)"
    by simp
  then have "x / ulp x \<le> 2 powi (e + 1) / ulp x"
    by (intro divide_right_mono) simp_all
  also have "2 powi (e + 1) / ulp x = (2::real) powi 53"
    unfolding u by (simp flip: power_int_diff)
  also have "\<dots> = of_int (2 ^ 53)"
    by simp
  finally have "round_half_even (x / ulp x) \<le> round_half_even (of_int (2 ^ 53))"
    by (rule round_half_even_mono)
  then have "real_of_int (round_half_even (x / ulp x)) \<le> 2 powi 53"
    by (simp only: round_half_even_int) (simp flip: of_int_le_iff)
  then have "ulp x * real_of_int (round_half_even (x / ulp x)) \<le> ulp x * 2 powi 53"
    by (intro mult_left_mono) simp_all
  also have "\<dots> = 2 powi (e + 1)"
    unfolding u two_powi_mult by (simp add: add.commute)
  finally show ?thesis
    using assms by (simp add: to_double_def e_def)
qed

lemma to_double_lower:
  assumes "0 < x" and "- 1022 \<le> exponent x"
  shows "2 powi exponent x \<le> to_double x"
proof -
  define e where "e = exponent x"
  have u: "ulp x = 2 powi (e - 52)"
    using assms(2) by (simp add: ulp_def e_def max_def)
  have "2 powi e \<le> x"
    using exponent_bounds(1) [of x] assms by (simp add: e_def)
  then have "2 powi e / ulp x \<le> x / ulp x"
    by (intro divide_right_mono) simp_all
  moreover have "2 powi e / ulp x = (2::real) powi 52"
    unfolding u by (simp flip: power_int_diff)
  moreover have "(2::real) powi 52 = of_int (2 ^ 52)"
    by simp
  ultimately have "round_half_even (of_int (2 ^ 52)) \<le> round_half_even (x / ulp x)"
    by (intro round_half_even_mono) simp
  then have "2 powi 52 \<le> real_of_int (round_half_even (x / ulp x))"
    by (simp only: round_half_even_int) (simp flip: of_int_le_iff)
  then have "ulp x * 2 powi 52 \<le> ulp x * real_of_int (round_half_even (x / ulp x))"
    by (intro mult_left_mono) simp_all
  moreover have "ulp x * 2 powi 52 = 2 powi e"
    unfolding u two_powi_mult by simp
  moreover have "to_double x = ulp x * real_of_int (round_half_even (x / ulp x))"
    using assms by (simp add: to_double_def)
  ultimately show ?thesis
    unfolding e_def by linarith
qed

lemma to_double_mono_pos:
  assumes "0 < x" "x \<le> y"
  shows "to_double x \<le> to_double y"
proof -
  have y: "0 < y"
    using assms by simp
  have le: "exponent x \<le> exponent y"
    using assms by (intro exponent_mono) simp_all
  show ?thesis
  proof (cases "max (exponent x) (- 1022) = max (exponent y) (- 1022)")
    case True
    then have u: "ulp y = ulp x"
      by (simp add: ulp_def)
    have "x / ulp x \<le> y / ulp x"
      using assms(2) by (intro divide_right_mono) simp_all
    then have "round_half_even (x / ulp x) \<le> round_half_even (y / ulp x)"
      by (rule round_half_even_mono)
    then have "ulp x * real_of_int (round_half_even (x / ulp x))
                 \<le> ulp x * real_of_int (round_half_even (y / ulp x))"
      by (intro mult_left_mono) simp_all
    then show ?thesis
      using assms y by (simp add: to_double_def u)
  next
    case False
    then have n: "- 1022 \<le> exponent y" and lt: "max (exponent x) (- 1022) + 1 \<le> exponent y"
      using le by (auto simp: max_def split: if_splits)
    have "to_double x \<le> 2 powi (max (exponent x) (- 1022) + 1)"
      using assms(1) by (rule to_double_upper)
    also have "\<dots> \<le> 2 powi exponent y"
      using lt by (intro power_int_increasing) simp_all
    also have "\<dots> \<le> to_double y"
      using y n by (rule to_double_lower)
    finally show ?thesis .
  qed
qed

lemma to_double_mono:
  assumes "x \<le> y"
  shows "to_double x \<le> to_double y"
proof -
  consider "0 < x" | "x \<le> 0" "0 \<le> y" | "y < 0"
    using assms by linarith
  then show ?thesis
  proof cases
    case 1
    then show ?thesis
      using assms by (rule to_double_mono_pos)
  next
    case 2
    then show ?thesis
      using to_double_nonpos [of x] to_double_nonneg [of y] by linarith
  next
    case 3
    then have "to_double (- y) \<le> to_double (- x)"
      using assms by (intro to_double_mono_pos) simp_all
    then show ?thesis
      by (simp add: to_double_minus)
  qed
qed

lemma to_double_idem_pos:
  assumes "0 < x"
  shows "to_double (to_double x) = to_double x"
proof -
  define e where "e = max (exponent x) (- 1022)"
  define k where "k = round_half_even (x / ulp x)"
  define y where "y = to_double x"
  have u: "ulp x = 2 powi (e - 52)"
    by (simp add: ulp_def e_def)
  have yk: "y = 2 powi (e - 52) * of_int k"
    using assms by (simp add: y_def to_double_def k_def u)
  have up: "y \<le> 2 powi (e + 1)"
    unfolding y_def e_def using assms by (rule to_double_upper)
  have nn: "0 \<le> y"
    unfolding y_def using assms by (intro to_double_nonneg) simp
  have "to_double y = y"
  proof (cases "y = 2 powi (e + 1)")
    case True
    have "- 1074 \<le> e + 1"
      by (simp add: e_def)
    then show ?thesis
      unfolding True by (rule to_double_power)
  next
    case False
    show ?thesis
    proof (cases "y = 0")
      case True
      then show ?thesis
        by simp
    next
      case y0: False
      have "\<bar>y\<bar> < 2 powi (e + 1)"
        using up False nn by simp
      moreover have "2 powi exponent y \<le> \<bar>y\<bar>"
        using y0 by (rule exponent_bounds)
      ultimately have lt: "(2::real) powi exponent y < 2 powi (e + 1)"
        by linarith
      have "exponent y < e + 1"
      proof (rule ccontr)
        assume "\<not> exponent y < e + 1"
        then have "(2::real) powi (e + 1) \<le> 2 powi exponent y"
          by (intro power_int_increasing) simp_all
        with lt show False
          by linarith
      qed
      then have "max (exponent y) (- 1022) - 52 \<le> e - 52"
        by (simp add: e_def)
      with yk show ?thesis
        by (rule to_double_multiple)
    qed
  qed
  then show ?thesis
    by (simp add: y_def)
qed

lemma to_double_idem [simp]: "to_double (to_double x) = to_double x"
proof -
  consider "0 < x" | "x = 0" | "x < 0"
    by linarith
  then show ?thesis
  proof cases
    case 1
    then show ?thesis
      by (rule to_double_idem_pos)
  next
    case 2
    then show ?thesis
      by simp
  next
    case 3
    then have "to_double (to_double (- x)) = to_double (- x)"
      by (intro to_double_idem_pos) simp
    then show ?thesis
      by (simp add: to_double_minus)
  qed
qed


lemma Math_round_double:
  assumes "to_double x = x"
  shows "to_double (of_int (Math_round x)) = of_int (Math_round x)"
proof (cases "\<bar>x\<bar> < 2 ^ 52")
  case True
  then have "- 4503599627370496 < x" "x < 4503599627370496"
    by (simp_all add: abs_less_iff)
  then have "\<bar>\<lfloor>x + 1 / 2\<rfloor>\<bar> \<le> 4503599627370496"
    by linarith
  then have "\<bar>Math_round x\<bar> \<le> 2 ^ 52"
    unfolding Math_round_def by simp
  then have "\<bar>Math_round x\<bar> \<le> 2 ^ 53"
    by simp
  then show ?thesis
    by (rule to_double_int)
next
  case False
  then have big: "2 powi 52 \<le> \<bar>x\<bar>"
    by simp
  then have x: "x \<noteq> 0"
    by auto
  have e: "52 \<le> exponent x"
  proof (rule ccontr)
    assume "\<not> 52 \<le> exponent x"
    then have "(2::real) powi (exponent x + 1) \<le> 2 powi 52"
      by (intro power_int_increasing) simp_all
    with big exponent_bounds(2) [OF x] show False
      by linarith
  qed
  then have "ulp x = 2 powi (exponent x - 52)"
    by (simp add: ulp_def max_def)
  also have "\<dots> = of_int (2 ^ nat (exponent x - 52))"
    using e by (simp add: power_int_def)
  finally have u: "ulp x = of_int (2 ^ nat (exponent x - 52))" .
  define k where "k = round_half_even (x / ulp x)"
  have "x = ulp x * of_int k"
    using assms x by (simp add: to_double_def k_def)
  also have "\<dots> = of_int (2 ^ nat (exponent x - 52)) * of_int k"
    by (simp only: u)
  also have "\<dots> = of_int (2 ^ nat (exponent x - 52) * k)"
    by simp
  finally have "x = of_int (2 ^ nat (exponent x - 52) * k)" .
  then obtain N :: int where N: "x = of_int N"
    by blast
  have "Math_round x = N"
    unfolding N Math_round_def by linarith
  then show ?thesis
    using assms N by simp
qed

lemma to_double_error_unit:
  assumes "0 \<le> x" "x \<le> 1"
  shows "to_double x \<le> x + 2 powi (- 54)"
proof -
  consider "x = 0" | "x = 1" | "0 < x" "x < 1"
    using assms by linarith
  then show ?thesis
  proof cases
    case 1
    then show ?thesis
      by simp
  next
    case 2
    then show ?thesis
      using to_double_int [of 1] by simp
  next
    case 3
    have e: "exponent x \<le> - 1"
    proof (rule ccontr)
      assume "\<not> exponent x \<le> - 1"
      then have "(2::real) powi 0 \<le> 2 powi exponent x"
        by (intro power_int_increasing) simp_all
      with exponent_bounds(1) [of x] 3 show False
        by simp
    qed
    have "ulp x \<le> 2 powi (- 53)"
      unfolding ulp_def using e by (intro power_int_increasing) simp_all
    moreover have "to_double x \<le> ulp x * (x / ulp x + 1 / 2)"
      using 3 round_half_even_bounds(1) [of "x / ulp x"]
      by (simp add: to_double_def mult_left_mono)
    moreover have "ulp x * (x / ulp x + 1 / 2) = x + ulp x / 2"
      by (simp add: algebra_simps)
    moreover have "(2::real) powi (- 53) / 2 = 2 powi (- 54)"
      by simp
    ultimately show ?thesis
      by linarith
  qed
qed

lemma bitlen_numeral_Bit0 [simp]: "bitlen (numeral (Num.Bit0 k)) = bitlen (numeral k) + 1"
  by (subst compute_bitlen) simp

lemma bitlen_numeral_Bit1 [simp]: "bitlen (numeral (Num.Bit1 k)) = bitlen (numeral k) + 1"
  by (subst compute_bitlen) simp

lemma bitlen_one [simp]: "bitlen 1 = 1" "bitlen (numeral Num.One) = 1"
  by (subst compute_bitlen, simp)+

text \<open>Evaluation of \<open>to_double\<close> at a literal.\<close>

lemma to_double_numeral:
  "to_double (numeral a) = ulp (numeral a) * of_int (round_half_even (numeral a / ulp (numeral a)))"
  by (simp add: to_double_def)

lemma to_double_fraction:
  "to_double (numeral a / numeral b) =
     ulp (numeral a / numeral b)
       * of_int (round_half_even (numeral a / numeral b / ulp (numeral a / numeral b)))"
  by (simp add: to_double_def)

lemma to_double_inverse:
  "to_double (1 / numeral b) =
     ulp (1 / numeral b) * of_int (round_half_even (1 / numeral b / ulp (1 / numeral b)))"
  by (simp add: to_double_def)

lemmas double_defs = to_double_numeral to_double_fraction to_double_inverse to_double_minus
  ulp_def exponent_def round_half_even_def Let_def

lemma to_double_le_one:
  assumes "y \<le> 1 + 2 powi (- 54)"
  shows "to_double y \<le> 1"
proof -
  have "to_double (1 + 2 powi (- 54)) = 1"
    by (simp add: double_defs)
  with to_double_mono [OF assms] show ?thesis
    by simp
qed

lemma to_double_one [simp]: "to_double 1 = 1"
  using to_double_int [of 1] by simp

lemma to_double_in_unit:
  assumes "0 \<le> x" "x \<le> 1"
  shows "0 \<le> to_double x" and "to_double x \<le> 1"
  using to_double_mono [of 0 x] to_double_mono [of x 1] assms by simp_all

lemma to_number_finite:
  assumes "- (2 ^ 1024) < to_double x" "to_double x < 2 ^ 1024"
  shows "to_number x = Finite (to_double x)"
  using assms by (simp add: to_number_def Let_def)

section \<open>Properties of the helpers\<close>

lemma weightedScan_zero:
  "\<forall>w \<in> set (x # xs). weight w = 0 \<Longrightarrow> weightedScan (x # xs) 0 = Some (item x)"
  by simp

lemma foldl_weight_shift:
  "foldl (\<lambda>sum it. sum + weight it) a ws = a + foldl (\<lambda>sum it. sum + weight it) 0 ws"
proof (induction ws arbitrary: a)
  case Nil
  show ?case by simp
next
  case (Cons w ws)
  show ?case
    using Cons.IH [of "a + weight w"] Cons.IH [of "weight w"] by simp
qed

lemma foldl_weight_nonneg:
  "\<forall>w \<in> set ws. 0 \<le> weight w \<Longrightarrow> 0 \<le> foldl (\<lambda>sum it. sum + weight it) 0 ws"
proof (induction ws)
  case Nil
  show ?case by simp
next
  case (Cons w ws)
  then show ?case
    using foldl_weight_shift [of "weight w" ws] by simp
qed

lemma zero_total_all_zero:
  "\<forall>w \<in> set ws. 0 \<le> weight w \<Longrightarrow> foldl (\<lambda>sum it. sum + weight it) 0 ws = 0
   \<Longrightarrow> \<forall>w \<in> set ws. weight w = 0"
proof (induction ws)
  case Nil
  show ?case by simp
next
  case (Cons w ws)
  have nn: "0 \<le> foldl (\<lambda>sum it. sum + weight it) 0 ws"
    using Cons.prems(1) by (intro foldl_weight_nonneg) simp
  have tot: "weight w + foldl (\<lambda>sum it. sum + weight it) 0 ws = 0"
    using Cons.prems(2) foldl_weight_shift [of "weight w" ws] by simp
  have w0: "0 \<le> weight w"
    using Cons.prems(1) by simp
  from nn tot w0 have "weight w = 0" and "foldl (\<lambda>sum it. sum + weight it) 0 ws = 0"
    by linarith+
  with Cons show ?case by simp
qed

text \<open>
  C3 (as the code behaves). On a non-empty table of non-negative weights that sum to zero,
  \<open>weightedChoice\<close> returns the first item of the table: the scaled random number is 0, and
  after the first weight (0) is subtracted the test \<open>random \<le> 0\<close> already holds.
\<close>

theorem weightedChoice_zero_total_first:
  assumes "weightedItems \<noteq> []"
    and "\<forall>w \<in> set weightedItems. 0 \<le> weight w"
    and "foldl (\<lambda>sum it. sum + weight it) 0 weightedItems = 0"
  shows "weightedChoice E weightedItems r = Some (item (hd weightedItems), r + 1)"
proof -
  obtain x xs where ws: "weightedItems = x # xs"
    using assms(1) by (cases weightedItems) auto
  have "\<forall>w \<in> set (x # xs). weight w = 0"
    using zero_total_all_zero [OF assms(2,3)] ws by simp
  then have "weightedScan (x # xs) 0 = Some (item x)"
    by (rule weightedScan_zero)
  then have scan: "weightedScan weightedItems 0 = Some (item (hd weightedItems))"
    using ws by simp
  show ?thesis
    unfolding weightedChoice_def Math_random_def Let_def prod.case assms(3) mult_zero_right scan
    by simp
qed

theorem weightedChoice_zero_total_first_witness:
  "two_zero_weights \<noteq> [] \<and> list_all (\<lambda>w. 0 \<le> weight w) two_zero_weights
   \<and> foldl (\<lambda>sum it. sum + weight it) 0 two_zero_weights = 0
   \<and> weightedChoice (utc_host (\<lambda>_. 1 / 2) 1700000000000) two_zero_weights 0 = Some (''a'', 1)"
proof -
  have a: "two_zero_weights \<noteq> []"
    by (simp add: two_zero_weights_def)
  have b: "\<forall>w \<in> set two_zero_weights. 0 \<le> weight w"
    by (simp add: two_zero_weights_def)
  have c: "foldl (\<lambda>sum it. sum + weight it) 0 two_zero_weights = 0"
    by (simp add: two_zero_weights_def)
  show ?thesis
    using a c
      weightedChoice_zero_total_first [OF a b c, of "utc_host (\<lambda>_. 1 / 2) 1700000000000" 0]
    by (simp add: two_zero_weights_def)
qed

text \<open>
  C3 (as stated) fails: on the table \<open>[(a, 0), (b, 0)]\<close> the weights are non-negative and
  sum to zero, and the item returned is \<open>a\<close>, not the last item \<open>b\<close>.
\<close>

theorem weightedChoice_zero_total_not_last:
  "two_zero_weights \<noteq> [] \<and> list_all (\<lambda>w. 0 \<le> weight w) two_zero_weights
   \<and> foldl (\<lambda>sum it. sum + weight it) 0 two_zero_weights = 0
   \<and> map_option fst (weightedChoice (utc_host (\<lambda>_. 1 / 2) 1700000000000) two_zero_weights 0)
       \<noteq> Some (item (last two_zero_weights))"
  by (simp add: two_zero_weights_def weightedChoice_def Math_random_def utc_host_def)

section \<open>The funnel calculator\<close>

lemma Math_round_nonneg: "0 \<le> x \<Longrightarrow> 0 \<le> Math_round x"
  by (simp add: Math_round_def)

text \<open>
  A rate sampled from a range within \<open>[0, 1]\<close> is a double within \<open>[0, 1]\<close>: the rounded
  difference of the bounds exceeds the difference by at most \<open>2 ^ - 54\<close>, and a sum of at
  most \<open>1 + 2 ^ - 54\<close> rounds to at most 1.
\<close>

lemma randomFloat_unit:
  assumes "unit_interval E" and "0 \<le> lo" "lo \<le> 1" "0 \<le> hi" "hi \<le> 1"
  shows "0 \<le> fst (randomFloat E lo hi r)" and "fst (randomFloat E lo hi r) \<le> 1"
proof -
  define u where "u = random E r"
  define L where "L = to_double lo"
  define H where "H = to_double hi"
  define d where "d = to_double (H - L)"
  define p where "p = to_double (u * d)"
  have u: "0 \<le> u" "u < 1"
    using assms(1) by (simp_all add: unit_interval_def u_def)
  have L: "0 \<le> L" "L \<le> 1" "to_double L = L"
    using to_double_in_unit [OF assms(2,3)] by (simp_all add: L_def)
  have H: "0 \<le> H" "H \<le> 1"
    using to_double_in_unit [OF assms(4,5)] by (simp_all add: H_def)
  have f: "fst (randomFloat E lo hi r) = to_double (p + L)"
    by (simp add: randomFloat_def Math_random_def Let_def u_def L_def H_def d_def p_def)
  have dd: "to_double d = d"
    by (simp add: d_def)
  have "0 \<le> p + L \<and> p + L \<le> 1 + 2 powi (- 54)"
  proof (cases "L \<le> H")
    case True
    then have hl: "0 \<le> H - L" "H - L \<le> 1"
      using L H by simp_all
    have d: "0 \<le> d" "d \<le> H - L + 2 powi (- 54)"
      unfolding d_def by (rule to_double_nonneg [OF hl(1)], rule to_double_error_unit [OF hl])
    have "u * d \<le> d"
      using u d(1) by (simp add: mult_left_le_one_le)
    then have "p \<le> d"
      unfolding p_def using to_double_mono [of "u * d" d] dd by simp
    moreover have "0 \<le> p"
      unfolding p_def using u d(1) by (intro to_double_nonneg) simp
    ultimately show ?thesis
      using d(2) L H by linarith
  next
    case False
    then have "- L \<le> H - L" "H - L \<le> 0"
      using H by simp_all
    then have d: "- L \<le> d" "d \<le> 0"
      unfolding d_def using to_double_mono [of "- L" "H - L"] to_double_nonpos [of "H - L"] L(3)
      by (simp_all add: to_double_minus)
    have "d \<le> u * d"
      using u d(2) by (simp add: mult_le_cancel_right1)
    then have "d \<le> p"
      unfolding p_def using to_double_mono [of d "u * d"] dd by simp
    moreover have "p \<le> 0"
      unfolding p_def using u d(2) by (intro to_double_nonpos) (simp add: mult_nonneg_nonpos)
    ultimately show ?thesis
      using d(1) L by simp
  qed
  then show "0 \<le> fst (randomFloat E lo hi r)" and "fst (randomFloat E lo hi r) \<le> 1"
    unfolding f by (simp_all add: to_double_nonneg to_double_le_one)
qed

lemma randomFloat_lower:
  assumes "unit_interval E" "lo \<le> hi"
  shows "to_double lo \<le> fst (randomFloat E lo hi r)"
proof -
  define u where "u = random E r"
  define L where "L = to_double lo"
  define H where "H = to_double hi"
  define p where "p = to_double (u * to_double (H - L))"
  have u: "0 \<le> u"
    using assms(1) by (simp add: unit_interval_def u_def)
  have "L \<le> H"
    unfolding L_def H_def using assms(2) by (rule to_double_mono)
  then have "0 \<le> to_double (H - L)"
    by (intro to_double_nonneg) simp
  then have "0 \<le> p"
    unfolding p_def using u by (intro to_double_nonneg) simp
  then have "to_double L \<le> to_double (p + L)"
    by (intro to_double_mono) simp
  moreover have "fst (randomFloat E lo hi r) = to_double (p + L)"
    by (simp add: randomFloat_def Math_random_def Let_def u_def L_def H_def p_def)
  ultimately show ?thesis
    by (simp add: L_def)
qed

text \<open>
  A stage count lies between 0 and the count before it, and is a double again: the
  product is at most the previous count, which rounding to a double and then to an
  integer both preserve.
\<close>

lemma stageCount_bounds:
  assumes "unit_interval E" "within_unit b" "0 \<le> previous"
    and "to_double (real_of_int previous) = real_of_int previous"
  shows "0 \<le> fst (stageCount E previous b r)" and "fst (stageCount E previous b r) \<le> previous"
    and "to_double (real_of_int (fst (stageCount E previous b r)))
           = real_of_int (fst (stageCount E previous b r))"
proof -
  define rate where "rate = fst (randomFloat E (range_min b) (range_max b) r)"
  define x where "x = to_double (real_of_int previous * rate)"
  have rate: "0 \<le> rate" "rate \<le> 1"
    using assms(2) randomFloat_unit [OF assms(1), of "range_min b" "range_max b" r]
    by (simp_all add: within_unit_def rate_def)
  have s: "fst (stageCount E previous b r) = Math_round x"
    by (simp add: stageCount_def calculateConversionRate_def x_def rate_def split: prod.splits)
  have "0 \<le> real_of_int previous * rate" "real_of_int previous * rate \<le> real_of_int previous"
    using rate assms(3) by (simp_all add: mult_left_le)
  then have x: "0 \<le> x" "x \<le> real_of_int previous"
    unfolding x_def using to_double_mono [of "real_of_int previous * rate" "real_of_int previous"]
      assms(4) by (simp_all add: to_double_nonneg)
  show "0 \<le> fst (stageCount E previous b r)" and "fst (stageCount E previous b r) \<le> previous"
    unfolding s Math_round_def using x by linarith+
  have "to_double x = x"
    by (simp add: x_def)
  then show "to_double (real_of_int (fst (stageCount E previous b r)))
           = real_of_int (fst (stageCount E previous b r))"
    unfolding s by (rule Math_round_double)
qed

lemma percentOf_percentage:
  assumes "0 \<le> a" "a \<le> b" "0 < b"
  shows "percentage (percentOf a b)"
proof -
  define q where "q = to_double (real_of_int a / real_of_int b)"
  define z where "z = to_double (q * 100)"
  define n where "n = \<lfloor>\<bar>z\<bar> * 10 ^ 2 + 1 / 2\<rfloor>"
  define w where "w = to_double (real_of_int n / 10 ^ 2)"
  have h: "to_double 100 = 100"
    using to_double_int [of 100] by simp
  have "0 \<le> real_of_int a / real_of_int b" "real_of_int a / real_of_int b \<le> 1"
    using assms by simp_all
  then have q: "0 \<le> q" "q \<le> 1"
    unfolding q_def by (rule to_double_in_unit)+
  have "0 \<le> q * 100" "q * 100 \<le> 100"
    using q by simp_all
  then have z: "0 \<le> z" "z \<le> 100"
    unfolding z_def using to_double_mono [of "q * 100" 100] h by (simp_all add: to_double_nonneg)
  have "0 \<le> \<bar>z\<bar> * 10 ^ 2 + 1 / 2" "\<bar>z\<bar> * 10 ^ 2 + 1 / 2 < 10001"
    using z by simp_all
  then have n: "0 \<le> n" "n \<le> 10000"
    unfolding n_def by linarith+
  then have "0 \<le> real_of_int n / 10 ^ 2" "real_of_int n / 10 ^ 2 \<le> 100"
    by simp_all
  then have w: "0 \<le> w" "w \<le> 100"
    unfolding w_def using to_double_mono [of "real_of_int n / 10 ^ 2" 100] h
    by (simp_all add: to_double_nonneg)
  have "js_div (real_of_int a) (real_of_int b) = Finite q"
    unfolding js_div_def q_def using assms(3) q
    by (simp add: q_def to_number_finite)
  moreover have "js_mul (Finite q) (Finite 100) = Finite z"
    using z by (simp add: z_def to_number_finite)
  moreover have "toFixed2 z = sgn z * w"
    using z by (simp add: toFixed2_def toFixed_def n_def w_def)
  ultimately have p: "percentOf a b = Finite (sgn z * w)"
    by (simp add: percentOf_def)
  have "sgn z = 0 \<or> sgn z = 1"
    using z(1) by (auto simp: sgn_if)
  then have "0 \<le> sgn z * w \<and> sgn z * w \<le> 100"
    using w by auto
  then show ?thesis
    by (simp add: p)
qed

lemma funnel_counts:
  assumes "unit_interval E" "rates_within_unit rates" "0 \<le> totalTriggers"
    and "to_double (real_of_int totalTriggers) = real_of_int totalTriggers"
  obtains dm pr ph ty lc pu r' where
    "generateFunnelMetrics E totalTriggers rates r =
       (\<lparr>total_triggers = totalTriggers,
         total_dm_conversations = dm,
         total_photo_requests = pr,
         total_photos_received = ph,
         total_generations = ph,
         successful_generations = ty,
         total_purchases = pu,
         trigger_to_dm_rate = (if totalTriggers > 0 then percentOf dm totalTriggers else Finite 0),
         dm_to_photo_rate = (if dm > 0 then percentOf ph dm else Finite 0),
         photo_to_success_rate = (if ph > 0 then percentOf ty ph else Finite 0),
         overall_conversion_rate =
           (if totalTriggers > 0 then percentOf pu totalTriggers else Finite 0)\<rparr>, r')"
    and "0 \<le> pu" "pu \<le> lc" "lc \<le> ty" "ty \<le> ph" "ph \<le> pr" "pr \<le> dm" "dm \<le> totalTriggers"
proof -
  have w: "within_unit (engagementToDM rates)" "within_unit (dmToPhotoRequest rates)"
    "within_unit (photoRequestToReceived rates)" "within_unit (photoToTryon rates)"
    "within_unit (tryonToLinkClick rates)" "within_unit (linkClickToPurchase rates)"
    using assms(2) by (simp_all add: rates_within_unit_def)
  obtain dm r1 where s1: "stageCount E totalTriggers (engagementToDM rates) r = (dm, r1)"
    by (cases "stageCount E totalTriggers (engagementToDM rates) r")
  obtain pr r2 where s2: "stageCount E dm (dmToPhotoRequest rates) r1 = (pr, r2)"
    by (cases "stageCount E dm (dmToPhotoRequest rates) r1")
  obtain ph r3 where s3: "stageCount E pr (photoRequestToReceived rates) r2 = (ph, r3)"
    by (cases "stageCount E pr (photoRequestToReceived rates) r2")
  obtain ty r4 where s4: "stageCount E ph (photoToTryon rates) r3 = (ty, r4)"
    by (cases "stageCount E ph (photoToTryon rates) r3")
  obtain lc r5 where s5: "stageCount E ty (tryonToLinkClick rates) r4 = (lc, r5)"
    by (cases "stageCount E ty (tryonToLinkClick rates) r4")
  obtain pu r6 where s6: "stageCount E lc (linkClickToPurchase rates) r5 = (pu, r6)"
    by (cases "stageCount E lc (linkClickToPurchase rates) r5")
  have b1: "0 \<le> dm" "dm \<le> totalTriggers" "to_double (real_of_int dm) = real_of_int dm"
    using stageCount_bounds [OF assms(1) w(1) assms(3,4), of r] s1 by simp_all
  have b2: "0 \<le> pr" "pr \<le> dm" "to_double (real_of_int pr) = real_of_int pr"
    using stageCount_bounds [OF assms(1) w(2) b1(1,3), of r1] s2 by simp_all
  have b3: "0 \<le> ph" "ph \<le> pr" "to_double (real_of_int ph) = real_of_int ph"
    using stageCount_bounds [OF assms(1) w(3) b2(1,3), of r2] s3 by simp_all
  have b4: "0 \<le> ty" "ty \<le> ph" "to_double (real_of_int ty) = real_of_int ty"
    using stageCount_bounds [OF assms(1) w(4) b3(1,3), of r3] s4 by simp_all
  have b5: "0 \<le> lc" "lc \<le> ty" "to_double (real_of_int lc) = real_of_int lc"
    using stageCount_bounds [OF assms(1) w(5) b4(1,3), of r4] s5 by simp_all
  have b6: "0 \<le> pu" "pu \<le> lc"
    using stageCount_bounds [OF assms(1) w(6) b5(1,3), of r5] s6 by simp_all
  show thesis
    by (rule that [OF _ b6 b5(2) b4(2) b3(2) b2(2) b1(2)])
       (simp add: generateFunnelMetrics_def s1 s2 s3 s4 s5 s6)
qed

lemma generateFunnelMetrics_chain:
  assumes "unit_interval E" "rates_within_unit rates" "0 \<le> totalTriggers"
    and "to_double (real_of_int totalTriggers) = real_of_int totalTriggers"
  shows "funnel_chain (fst (generateFunnelMetrics E totalTriggers rates r))"
proof -
  obtain dm pr ph ty lc pu r' m where
    m: "generateFunnelMetrics E totalTriggers rates r = (m, r')"
    and f: "total_triggers m = totalTriggers" "total_dm_conversations m = dm"
      "total_photo_requests m = pr" "total_photos_received m = ph"
      "successful_generations m = ty" "total_purchases m = pu"
    and b: "0 \<le> pu" "pu \<le> lc" "lc \<le> ty" "ty \<le> ph" "ph \<le> pr" "pr \<le> dm" "dm \<le> totalTriggers"
    using funnel_counts [OF assms, of r] by (metis funnelMetrics.select_convs(1-7))
  show ?thesis
    using b by (simp add: m f funnel_chain_def)
qed

lemmas funnel_defs = generateFunnelMetrics_def stageCount_def calculateConversionRate_def
  randomFloat_def Math_random_def Math_round_def CONFIG_funnelRates_def percentOf_def js_div_def
  to_number_def toFixed2_def toFixed_def double_defs

lemmas funnel_cong = let_weak_cong prod.case_cong_weak

text \<open>
  C6. For a trigger count that is a number and is not negative, and rate ranges within
  \<open>[0, 1]\<close>, each of the four percentage fields returned by \<open>generateFunnelMetrics\<close> is a
  finite number in \<open>[0, 100]\<close> (so neither \<^verbatim>\<open>NaN\<close> nor an infinity), and a field whose
  denominator (\<open>total_triggers\<close>, \<open>total_dm_conversations\<close> or \<open>total_photos_received\<close>) is
  0 is 0: the guard of the source is taken, and the division, which would give \<^verbatim>\<open>NaN\<close>
  or an infinity, is not evaluated.
\<close>

theorem generateFunnelMetrics_percentages:
  assumes "unit_interval E" "rates_within_unit rates" "0 \<le> totalTriggers"
    and "to_double (real_of_int totalTriggers) = real_of_int totalTriggers"
    and "m = fst (generateFunnelMetrics E totalTriggers rates r)"
  shows "percentage (trigger_to_dm_rate m) \<and> percentage (dm_to_photo_rate m)
         \<and> percentage (photo_to_success_rate m) \<and> percentage (overall_conversion_rate m)
         \<and> (total_triggers m = 0
              \<longrightarrow> trigger_to_dm_rate m = Finite 0 \<and> overall_conversion_rate m = Finite 0)
         \<and> (total_dm_conversations m = 0 \<longrightarrow> dm_to_photo_rate m = Finite 0)
         \<and> (total_photos_received m = 0 \<longrightarrow> photo_to_success_rate m = Finite 0)"
proof -
  obtain dm pr ph ty lc pu r' where
    g: "generateFunnelMetrics E totalTriggers rates r =
       (\<lparr>total_triggers = totalTriggers,
         total_dm_conversations = dm,
         total_photo_requests = pr,
         total_photos_received = ph,
         total_generations = ph,
         successful_generations = ty,
         total_purchases = pu,
         trigger_to_dm_rate = (if totalTriggers > 0 then percentOf dm totalTriggers else Finite 0),
         dm_to_photo_rate = (if dm > 0 then percentOf ph dm else Finite 0),
         photo_to_success_rate = (if ph > 0 then percentOf ty ph else Finite 0),
         overall_conversion_rate =
           (if totalTriggers > 0 then percentOf pu totalTriggers else Finite 0)\<rparr>, r')"
    and b: "0 \<le> pu" "pu \<le> lc" "lc \<le> ty" "ty \<le> ph" "ph \<le> pr" "pr \<le> dm" "dm \<le> totalTriggers"
    by (rule funnel_counts [OF assms(1-4), of r])
  have p1: "0 < totalTriggers \<Longrightarrow> percentage (percentOf dm totalTriggers)"
    using b by (intro percentOf_percentage) simp_all
  have p2: "0 < dm \<Longrightarrow> percentage (percentOf ph dm)"
    using b by (intro percentOf_percentage) simp_all
  have p3: "0 < ph \<Longrightarrow> percentage (percentOf ty ph)"
    using b by (intro percentOf_percentage) simp_all
  have p4: "0 < totalTriggers \<Longrightarrow> percentage (percentOf pu totalTriggers)"
    using b by (intro percentOf_percentage) simp_all
  have z: "percentage (Finite 0)"
    by simp
  have f: "total_triggers m = totalTriggers" "total_dm_conversations m = dm"
    "total_photos_received m = ph"
    "trigger_to_dm_rate m = (if totalTriggers > 0 then percentOf dm totalTriggers else Finite 0)"
    "dm_to_photo_rate m = (if dm > 0 then percentOf ph dm else Finite 0)"
    "photo_to_success_rate m = (if ph > 0 then percentOf ty ph else Finite 0)"
    "overall_conversion_rate m = (if totalTriggers > 0 then percentOf pu totalTriggers else Finite 0)"
    unfolding assms(5) g by simp_all
  have "percentage (trigger_to_dm_rate m)"
    unfolding f using p1 z by (cases "0 < totalTriggers") simp_all
  moreover have "percentage (dm_to_photo_rate m)"
    unfolding f using p2 z by (cases "0 < dm") simp_all
  moreover have "percentage (photo_to_success_rate m)"
    unfolding f using p3 z by (cases "0 < ph") simp_all
  moreover have "percentage (overall_conversion_rate m)"
    unfolding f using p4 z by (cases "0 < totalTriggers") simp_all
  moreover have "total_triggers m = 0
      \<longrightarrow> trigger_to_dm_rate m = Finite 0 \<and> overall_conversion_rate m = Finite 0"
    unfolding f by simp
  moreover have "total_dm_conversations m = 0 \<longrightarrow> dm_to_photo_rate m = Finite 0"
    unfolding f by simp
  moreover have "total_photos_received m = 0 \<longrightarrow> photo_to_success_rate m = Finite 0"
    unfolding f by simp
  ultimately show ?thesis
    by blast
qed

theorem generateFunnelMetrics_percentages_witness:
  "unit_interval (constant_host 0.375) \<and> rates_within_unit CONFIG_funnelRates
   \<and> (\<exists>m r'. generateFunnelMetrics (constant_host 0.375) 600 CONFIG_funnelRates 0 = (m, r')
         \<and> total_dm_conversations m = 25 \<and> total_photos_received m = 7
         \<and> successful_generations m = 6 \<and> total_purchases m = 1
         \<and> trigger_to_dm_rate m = Finite (to_double 4.17)
         \<and> dm_to_photo_rate m = Finite 28
         \<and> photo_to_success_rate m = Finite (to_double 85.71)
         \<and> overall_conversion_rate m = Finite (to_double 0.17)
         \<and> percentage (trigger_to_dm_rate m) \<and> percentage (dm_to_photo_rate m)
         \<and> percentage (photo_to_success_rate m) \<and> percentage (overall_conversion_rate m))
   \<and> (\<exists>m r'. generateFunnelMetrics (constant_host 0.375) 1 CONFIG_funnelRates 0 = (m, r')
         \<and> total_triggers m = 1 \<and> total_dm_conversations m = 0 \<and> total_photos_received m = 0
         \<and> trigger_to_dm_rate m = Finite 0 \<and> dm_to_photo_rate m = Finite 0
         \<and> photo_to_success_rate m = Finite 0 \<and> overall_conversion_rate m = Finite 0)
   \<and> (\<exists>m r'. generateFunnelMetrics (constant_host 0.375) 0 CONFIG_funnelRates 0 = (m, r')
         \<and> total_triggers m = 0
         \<and> trigger_to_dm_rate m = Finite 0 \<and> overall_conversion_rate m = Finite 0)
   \<and> percentOf 0 0 = NaN \<and> percentOf 25 0 = Infinity"
proof -
  let ?H = "constant_host 0.375"
  have u: "unit_interval ?H"
    by (simp add: unit_interval_def constant_host_def utc_host_def)
  have w: "rates_within_unit CONFIG_funnelRates"
    by (simp add: rates_within_unit_def within_unit_def CONFIG_funnelRates_def)
  have "\<exists>m r'. generateFunnelMetrics ?H 600 CONFIG_funnelRates 0 = (m, r')
         \<and> total_dm_conversations m = 25 \<and> total_photos_received m = 7
         \<and> successful_generations m = 6 \<and> total_purchases m = 1
         \<and> trigger_to_dm_rate m = Finite (to_double 4.17)
         \<and> dm_to_photo_rate m = Finite 28
         \<and> photo_to_success_rate m = Finite (to_double 85.71)
         \<and> overall_conversion_rate m = Finite (to_double 0.17)"
    by (simp add: funnel_defs constant_host_def utc_host_def cong: funnel_cong)
  then obtain m r' where
    a: "generateFunnelMetrics ?H 600 CONFIG_funnelRates 0 = (m, r')"
    and av: "total_dm_conversations m = 25" "total_photos_received m = 7"
      "successful_generations m = 6" "total_purchases m = 1"
      "trigger_to_dm_rate m = Finite (to_double 4.17)" "dm_to_photo_rate m = Finite 28"
      "photo_to_success_rate m = Finite (to_double 85.71)"
      "overall_conversion_rate m = Finite (to_double 0.17)"
    by (elim exE conjE)
  have am: "m = fst (generateFunnelMetrics ?H 600 CONFIG_funnelRates 0)"
    unfolding a by simp
  have a0: "(0::int) \<le> 600"
    by simp
  have ad: "to_double (real_of_int 600) = real_of_int 600"
    by (rule to_double_int) simp
  note ath = generateFunnelMetrics_percentages [OF u w a0 ad am]
  have ap: "percentage (trigger_to_dm_rate m)" "percentage (dm_to_photo_rate m)"
    "percentage (photo_to_success_rate m)" "percentage (overall_conversion_rate m)"
    using ath by simp_all
  have "\<exists>m r'. generateFunnelMetrics ?H 1 CONFIG_funnelRates 0 = (m, r')
         \<and> total_triggers m = 1 \<and> total_dm_conversations m = 0 \<and> total_photos_received m = 0
         \<and> trigger_to_dm_rate m = Finite 0"
    by (simp add: funnel_defs constant_host_def utc_host_def cong: funnel_cong)
  then obtain n s' where
    b: "generateFunnelMetrics ?H 1 CONFIG_funnelRates 0 = (n, s')"
    and bv: "total_triggers n = 1" "total_dm_conversations n = 0" "total_photos_received n = 0"
      "trigger_to_dm_rate n = Finite 0"
    by (elim exE conjE)
  have bm: "n = fst (generateFunnelMetrics ?H 1 CONFIG_funnelRates 0)"
    unfolding b by simp
  have b0: "(0::int) \<le> 1"
    by simp
  have bd: "to_double (real_of_int 1) = real_of_int 1"
    by (rule to_double_int) simp
  note bth = generateFunnelMetrics_percentages [OF u w b0 bd bm]
  have bz: "dm_to_photo_rate n = Finite 0" "photo_to_success_rate n = Finite 0"
    using bth bv by simp_all
  have "\<exists>m r'. generateFunnelMetrics ?H 1 CONFIG_funnelRates 0 = (m, r')
         \<and> overall_conversion_rate m = Finite 0"
    by (simp add: funnel_defs constant_host_def utc_host_def cong: funnel_cong)
  then have bo: "overall_conversion_rate n = Finite 0"
    using b by auto
  have "\<exists>m r'. generateFunnelMetrics ?H 0 CONFIG_funnelRates 0 = (m, r') \<and> total_triggers m = 0"
    by (simp add: funnel_defs constant_host_def utc_host_def cong: funnel_cong)
  then obtain k t' where
    c: "generateFunnelMetrics ?H 0 CONFIG_funnelRates 0 = (k, t')" and cv: "total_triggers k = 0"
    by (elim exE conjE)
  have cm: "k = fst (generateFunnelMetrics ?H 0 CONFIG_funnelRates 0)"
    unfolding c by simp
  have c0: "(0::int) \<le> 0"
    by simp
  have cd: "to_double (real_of_int 0) = real_of_int 0"
    by simp
  note cth = generateFunnelMetrics_percentages [OF u w c0 cd cm]
  have cz: "trigger_to_dm_rate k = Finite 0" "overall_conversion_rate k = Finite 0"
    using cth cv by simp_all
  have g: "percentOf 0 0 = NaN" "percentOf 25 0 = Infinity"
    by (simp_all add: percentOf_def js_div_def)
  show ?thesis
    using u w a av ap b bv bz bo c cv cz g by simp
qed

section \<open>Loops\<close>

lemma for_each_rel:
  assumes step: "\<And>x s ys s'. x \<in> set xs \<Longrightarrow> body x s = Some (ys, s') \<Longrightarrow> R s ys s'"
    and refl: "\<And>s. R s [] s"
    and trans: "\<And>s ys s1 zs s2. R s ys s1 \<Longrightarrow> R s1 zs s2 \<Longrightarrow> R s (ys @ zs) s2"
    and run: "for_each xs body s = Some (out, s')"
  shows "R s out s'"
  using step run
proof (induction xs arbitrary: s out s')
  case Nil
  then show ?case using refl by simp
next
  case (Cons x xs)
  from Cons.prems(2) obtain ys s1 zs where
    b: "body x s = Some (ys, s1)" and rest: "for_each xs body s1 = Some (zs, s')"
    and out: "out = ys @ zs"
    by (auto split: option.splits prod.splits)
  have "R s ys s1"
    by (rule Cons.prems(1) [OF _ b]) simp
  moreover have "R s1 zs s'"
  proof (rule Cons.IH [OF _ rest])
    fix y t ws t'
    assume "y \<in> set xs" and "body y t = Some (ws, t')"
    then show "R t ws t'"
      by (intro Cons.prems(1)) simp_all
  qed
  ultimately show ?case
    unfolding out by (rule trans)
qed

lemma for_range_rel:
  assumes step: "\<And>k s ys s'. i \<le> k \<Longrightarrow> k < i + n \<Longrightarrow> body k s = Some (ys, s') \<Longrightarrow> R s ys s'"
    and refl: "\<And>s. R s [] s"
    and trans: "\<And>s ys s1 zs s2. R s ys s1 \<Longrightarrow> R s1 zs s2 \<Longrightarrow> R s (ys @ zs) s2"
    and run: "for_range i n body s = Some (out, s')"
  shows "R s out s'"
  using step run
proof (induction n arbitrary: i s out s')
  case 0
  then show ?case using refl by simp
next
  case (Suc n)
  from Suc.prems(2) obtain ys s1 zs where
    b: "body i s = Some (ys, s1)" and rest: "for_range (Suc i) n body s1 = Some (zs, s')"
    and out: "out = ys @ zs"
    by (auto split: option.splits prod.splits)
  have "R s ys s1"
    by (rule Suc.prems(1) [OF _ _ b]) simp_all
  moreover have "R s1 zs s'"
  proof (rule Suc.IH [OF _ rest])
    fix k t ws t'
    assume "Suc i \<le> k" and "k < Suc i + n" and "body k t = Some (ws, t')"
    then show "R t ws t'"
      by (intro Suc.prems(1)) simp_all
  qed
  ultimately show ?case
    unfolding out by (rule trans)
qed

lemma for_each_all:
  assumes "\<And>x s ys s'. x \<in> set xs \<Longrightarrow> body x s = Some (ys, s') \<Longrightarrow> \<forall>y \<in> set ys. P y"
    and "for_each xs body s = Some (out, s')"
  shows "\<forall>y \<in> set out. P y"
  by (rule for_each_rel [where R = "\<lambda>_ ys _. \<forall>y \<in> set ys. P y", OF assms(1) _ _ assms(2)]) auto

lemma for_range_all:
  assumes "\<And>k s ys s'. k < i + n \<Longrightarrow> body k s = Some (ys, s') \<Longrightarrow> \<forall>y \<in> set ys. P y"
    and "for_range i n body s = Some (out, s')"
  shows "\<forall>y \<in> set out. P y"
  by (rule for_range_rel [where R = "\<lambda>_ ys _. \<forall>y \<in> set ys. P y", OF assms(1) _ _ assms(2)]) auto

lemma for_each_length:
  assumes "\<And>x s ys s'. x \<in> set xs \<Longrightarrow> body x s = Some (ys, s') \<Longrightarrow> length ys = n"
    and "for_each xs body s = Some (out, s')"
  shows "length out = length xs * n"
  using assms
proof (induction xs arbitrary: s out s')
  case Nil
  then show ?case by simp
next
  case (Cons x xs)
  from Cons.prems(2) obtain ys s1 zs where
    b: "body x s = Some (ys, s1)" and rest: "for_each xs body s1 = Some (zs, s')"
    and out: "out = ys @ zs"
    by (auto split: option.splits prod.splits)
  have "length ys = n"
    by (rule Cons.prems(1) [OF _ b]) simp
  moreover have "length zs = length xs * n"
  proof (rule Cons.IH [OF _ rest])
    fix y t ws t'
    assume "y \<in> set xs" and "body y t = Some (ws, t')"
    then show "length ws = n"
      by (intro Cons.prems(1)) simp_all
  qed
  ultimately show ?case
    unfolding out by simp
qed

lemma for_range_length:
  assumes "\<And>k s ys s'. body k s = Some (ys, s') \<Longrightarrow> length ys = n"
    and "for_range i m body s = Some (out, s')"
  shows "length out = m * n"
  using assms(2)
proof (induction m arbitrary: i s out s')
  case 0
  then show ?case by simp
next
  case (Suc m)
  from Suc.prems obtain ys s1 zs where
    b: "body i s = Some (ys, s1)" and rest: "for_range (Suc i) m body s1 = Some (zs, s')"
    and out: "out = ys @ zs"
    by (auto split: option.splits prod.splits)
  have "length ys = n"
    by (rule assms(1) [OF b])
  moreover have "length zs = m * n"
    by (rule Suc.IH [OF rest])
  ultimately show ?case
    unfolding out by simp
qed

section \<open>Conversations\<close>

lemma tie_free_split:
  fixes n :: int
  shows "(4 * n + 5) div 10 + (6 * n + 5) div 10 = n"
proof -
  define a where "a = (4 * n + 5) div 10"
  define b where "b = (6 * n + 5) div 10"
  have a1: "10 * a \<le> 4 * n + 5" and a2: "4 * n + 5 < 10 * a + 10"
    unfolding a_def by linarith+
  have b1: "10 * b \<le> 6 * n + 5" and b2: "6 * n + 5 < 10 * b + 10"
    unfolding b_def by linarith+
  have "10 * a \<noteq> 4 * n + 5"
  proof
    assume "10 * a = 4 * n + 5"
    then have "even (4 * n + 5)"
      by (metis dvd_triv_left even_numeral mult.assoc numeral_Bit0_eq_double dvd_mult2)
    then show False by simp
  qed
  moreover have "10 * b \<noteq> 6 * n + 5"
  proof
    assume "10 * b = 6 * n + 5"
    then have "even (6 * n + 5)"
      by (metis dvd_triv_left even_numeral mult.assoc numeral_Bit0_eq_double dvd_mult2)
    then show False by simp
  qed
  ultimately have "a + b = n"
    using a1 a2 b1 b2 by linarith
  then show ?thesis
    by (simp add: a_def b_def)
qed

lemma round_split:
  "Math_round (real_of_int n * 0.4) + Math_round (real_of_int n * 0.6) = n"
proof -
  have a: "real_of_int n * 0.4 + 1 / 2 = real_of_int (4 * n + 5) / real_of_int 10"
    by simp
  have b: "real_of_int n * 0.6 + 1 / 2 = real_of_int (6 * n + 5) / real_of_int 10"
    by simp
  have "Math_round (real_of_int n * 0.4) = (4 * n + 5) div 10"
    unfolding Math_round_def a by (rule floor_divide_of_int_eq)
  moreover have "Math_round (real_of_int n * 0.6) = (6 * n + 5) div 10"
    unfolding Math_round_def b by (rule floor_divide_of_int_eq)
  ultimately show ?thesis
    by (simp add: tie_free_split)
qed

lemma randomInt_range:
  assumes "unit_interval E" "lo \<le> hi"
  shows "lo \<le> fst (randomInt E lo hi r) \<and> fst (randomInt E lo hi r) \<le> hi"
proof -
  have u: "0 \<le> random E r" "random E r < 1"
    using assms(1) by (simp_all add: unit_interval_def)
  have pos: "0 < real_of_int (hi - lo + 1)"
    using assms(2) by simp
  have "0 \<le> random E r * real_of_int (hi - lo + 1)"
    using u(1) pos by simp
  then have lo: "0 \<le> \<lfloor>random E r * real_of_int (hi - lo + 1)\<rfloor>"
    by simp
  have "random E r * real_of_int (hi - lo + 1) < 1 * real_of_int (hi - lo + 1)"
    using u(2) pos by (intro mult_strict_right_mono) simp_all
  then have "\<lfloor>random E r * real_of_int (hi - lo + 1)\<rfloor> < hi - lo + 1"
    by (subst floor_less_iff) simp
  with lo show ?thesis
    by (simp add: randomInt_def Math_random_def)
qed

lemma newConversation_fields:
  assumes "newConversation E sc ws acct prods bindings c = Some (cv, c')"
  shows "tryon_consistent cv"
    and "bot_messages cv + user_messages cv = message_count cv"
    and "\<exists>r. message_count cv = fst (randomInt E 2 15 r)"
    and "conversation_workspace_id cv = workspace_id ws"
    and "conversation_id cv = uuidv4 E (snd c)" and "snd c' = snd c + 1"
proof -
  obtain r i where c: "c = (r, i)"
    by (cases c)
  obtain customerId r1 where h: "generateHash E 16 r = (customerId, r1)"
    by (cases "generateHash E 16 r")
  obtain startedAt r2 where
    d: "randomDate E (daysAgo E (int (daysOfHistory sc))) (now E) r1 = (startedAt, r2)"
    by (cases "randomDate E (daysAgo E (int (daysOfHistory sc))) (now E) r1")
  obtain messageCount r3 where m: "randomInt E 2 15 r2 = (messageCount, r3)"
    by (cases "randomInt E 2 15 r2")
  obtain state r4 where st: "randomChoice E CONFIG_conversationStates r3 = (state, r4)"
    by (cases "randomChoice E CONFIG_conversationStates r3")
  define tryon where "tryon = (case state of None \<Rightarrow> False | Some s \<Rightarrow> s \<in> set tryonStates)"
  obtain purchase r5 where
    p: "(if tryon then randomBool E 0.15 r4 else (False, r4)) = (purchase, r5)"
    by (cases "if tryon then randomBool E 0.15 r4 else (False, r4)")
  obtain binding r6 where
    b: "(if length bindings > 0 then randomChoice E bindings r5 else (None, r5)) = (binding, r6)"
    by (cases "if length bindings > 0 then randomChoice E bindings r5 else (None, r5)")
  obtain lastMessageAt r7 where l: "randomDate E startedAt (now E) r6 = (lastMessageAt, r7)"
    by (cases "randomDate E startedAt (now E) r6")
  have pt: "purchase \<longrightarrow> tryon"
    using p by (cases tryon) simp_all
  have "acct \<bind> (\<lambda>a. Some
          (\<lparr>conversation_id = uuidv4 E i, conversation_workspace_id = workspace_id ws,
            conversation_account_id = account_id a, participant_id = customerId,
            conversation_state = state,
            conversation_category = (if tryon then ''tryon'' else ''general''),
            started_at = startedAt, last_message_at = lastMessageAt,
            message_count = messageCount,
            bot_messages = Math_round (real_of_int messageCount * 0.4),
            user_messages = Math_round (real_of_int messageCount * 0.6),
            resulted_in_tryon = tryon,
            resulted_in_purchase = purchase,
            purchase_amount_cents =
              (if purchase
               then (case binding of
                       None \<Rightarrow> None
                     | Some b \<Rightarrow>
                         Some (case List.find (\<lambda>p. product_id p = binding_product_id b) prods of
                                 None \<Rightarrow> 5000
                               | Some p \<Rightarrow> if product_price_cents p = 0 then 5000
                                           else product_price_cents p))
               else None)\<rparr>, (r7, i + 1))) = Some (cv, c')"
    using assms
    unfolding newConversation_def c prod.case h d m st Let_def tryon_def [symmetric] p b l
      generateId_def Option.bind.simps
    by simp
  then have cv:
    "message_count cv = messageCount"
    "bot_messages cv = Math_round (real_of_int messageCount * 0.4)"
    "user_messages cv = Math_round (real_of_int messageCount * 0.6)"
    "conversation_state cv = state"
    "resulted_in_tryon cv = tryon"
    "resulted_in_purchase cv = purchase"
    "conversation_workspace_id cv = workspace_id ws"
    "conversation_id cv = uuidv4 E i" "c' = (r7, i + 1)"
    by (cases acct; auto)+
  show "tryon_consistent cv"
    using pt by (cases state) (auto simp: tryon_consistent_def cv tryon_def tryonStates_def)
  show "bot_messages cv + user_messages cv = message_count cv"
    unfolding cv by (rule round_split)
  show "\<exists>r. message_count cv = fst (randomInt E 2 15 r)"
    using m by (intro exI [of _ r2]) (simp add: cv)
  show "conversation_workspace_id cv = workspace_id ws"
    by (rule cv(7))
  show "conversation_id cv = uuidv4 E (snd c)" "snd c' = snd c + 1"
    by (simp_all add: cv c)
qed

lemma generateConversations_all:
  assumes run: "generateConversations E sc wss accts prods binds c = Some (cs, cc, c')"
    and each: "\<And>ws acct bs s cv s'. ws \<in> set wss \<Longrightarrow>
         newConversation E sc ws acct prods bs s = Some (cv, s') \<Longrightarrow> P cv"
  shows "\<forall>cv \<in> set cs. P cv"
proof -
  from run obtain c1 where
    loop: "for_each wss (\<lambda>ws.
         let acct = List.find (\<lambda>a. account_workspace_id a = workspace_id ws) accts;
             bindings = filter (\<lambda>b. binding_workspace_id b = workspace_id ws) binds
         in for_range 0 (conversationsPerWorkspace sc) (\<lambda>_ c. do {
              (cv, c') \<leftarrow> newConversation E sc ws acct prods bindings c;
              Some ([cv], c')
            })) c = Some (cs, c1)"
    by (auto simp: generateConversations_def split: Option.bind_splits)
  show ?thesis
  proof (rule for_each_all [OF _ loop])
    fix ws s ys s'
    assume ws: "ws \<in> set wss"
      and inner: "(let acct = List.find (\<lambda>a. account_workspace_id a = workspace_id ws) accts;
             bindings = filter (\<lambda>b. binding_workspace_id b = workspace_id ws) binds
         in for_range 0 (conversationsPerWorkspace sc) (\<lambda>_ c. do {
              (cv, c') \<leftarrow> newConversation E sc ws acct prods bindings c;
              Some ([cv], c')
            })) s = Some (ys, s')"
    show "\<forall>y \<in> set ys. P y"
    proof (rule for_range_all [OF _ inner [unfolded Let_def]])
      fix k t zs t'
      assume "newConversation E sc ws (List.find (\<lambda>a. account_workspace_id a = workspace_id ws) accts)
                prods (filter (\<lambda>b. binding_workspace_id b = workspace_id ws) binds) t
              \<bind> (\<lambda>(cv, c'). Some ([cv], c')) = Some (zs, t')"
      then obtain cv where "newConversation E sc ws (List.find (\<lambda>a. account_workspace_id a = workspace_id ws) accts)
                prods (filter (\<lambda>b. binding_workspace_id b = workspace_id ws) binds) t = Some (cv, t')"
        and "zs = [cv]"
        by (auto split: Option.bind_splits)
      then show "\<forall>y \<in> set zs. P y"
        using each [OF ws] by simp
    qed
  qed
qed

text \<open>
  C7. For every conversation produced by \<open>generateConversations\<close>,
  \<open>resulted_in_tryon\<close> is true exactly when the state is \<open>processing_tryon\<close>,
  \<open>result_sent\<close> or \<open>completed\<close>; so a completed conversation has
  \<open>resulted_in_tryon\<close>, and so has one with \<open>resulted_in_purchase\<close>.
\<close>

theorem generateConversations_tryon:
  assumes "generateConversations E sc wss accts prods binds c = Some (cs, cc, c')"
  shows "\<forall>cv \<in> set cs. tryon_consistent cv"
  by (rule generateConversations_all [OF assms]) (rule newConversation_fields(1))

text \<open>
  C10. For every conversation produced by \<open>generateConversations\<close>, the message count
  lies in 2..15 and \<open>bot_messages + user_messages = message_count\<close>: the two roundings
  of \<open>0.4 n\<close> and \<open>0.6 n\<close> never meet a tie and add up to \<open>n\<close>.
\<close>

theorem generateConversations_messages:
  assumes "unit_interval E"
    and "generateConversations E sc wss accts prods binds c = Some (cs, cc, c')"
  shows "\<forall>cv \<in> set cs. messages_split cv"
proof (rule generateConversations_all [OF assms(2)])
  fix ws acct bs s cv s'
  assume n: "newConversation E sc ws acct prods bs s = Some (cv, s')"
  from newConversation_fields(3) [OF n] obtain r where "message_count cv = fst (randomInt E 2 15 r)"
    by blast
  then have "2 \<le> message_count cv \<and> message_count cv \<le> 15"
    using randomInt_range [OF assms(1), of 2 15 r] by simp
  then show "messages_split cv"
    using newConversation_fields(2) [OF n] by (simp add: messages_split_def)
qed


lemma for_range_numeral:
  "for_range i (numeral k) body s =
     (case body i s of
        None \<Rightarrow> None
      | Some (ys, s1) \<Rightarrow>
          (case for_range (Suc i) (pred_numeral k) body s1 of
             None \<Rightarrow> None
           | Some (zs, s2) \<Rightarrow> Some (ys @ zs, s2)))"
  by (simp add: numeral_eq_Suc)

lemma generateHash_numeral:
  "generateHash E (numeral k) r =
     (let (c, r1) = randomChoice E ''abcdef0123456789'' r;
          (rest, r2) = generateHash E (pred_numeral k) r1
      in ((case c of Some ch \<Rightarrow> [ch] | None \<Rightarrow> ''undefined'') @ rest, r2))"
  by (simp add: numeral_eq_Suc)

lemmas sampling_defs = constant_host_def utc_host_def Math_random_def Math_round_def generateId_def
  randomChoice_def randomInt_def randomFloat_def randomBool_def randomDate_def timeClip_def
  daysAgo_def unusedDraws_def double_defs

theorem generateConversations_tryon_witness:
  "\<exists>cs cc c'. generateConversations (constant_host 0.8) tiny [workspace0] [account0] [] [] (0, 2)
                 = Some (cs, cc, c')
     \<and> map conversation_state cs = [Some ''completed'']
     \<and> map resulted_in_tryon cs = [True]
     \<and> list_all tryon_consistent cs"
proof -
  have "\<exists>cs cc c'. generateConversations (constant_host 0.8) tiny [workspace0] [account0] [] [] (0, 2)
                 = Some (cs, cc, c')
     \<and> map conversation_state cs = [Some ''completed''] \<and> map resulted_in_tryon cs = [True]"
    by (simp add: generateConversations_def newConversation_def tiny_def workspace0_def
        account0_def generateHash_numeral CONFIG_conversationStates_def tryonStates_def
        sampling_defs)
  then obtain cs cc c' where
    run: "generateConversations (constant_host 0.8) tiny [workspace0] [account0] [] [] (0, 2)
            = Some (cs, cc, c')"
    and st: "map conversation_state cs = [Some ''completed'']" "map resulted_in_tryon cs = [True]"
    by (elim exE conjE)
  have "list_all tryon_consistent cs"
    using generateConversations_tryon [OF run] by (simp add: list_all_iff)
  with run st show ?thesis
    by simp
qed

theorem generateConversations_messages_witness:
  "unit_interval (constant_host 0.8)
   \<and> (\<exists>cs cc c'. generateConversations (constant_host 0.8) tiny [workspace0] [account0] [] [] (0, 2)
                 = Some (cs, cc, c')
        \<and> map message_count cs = [13] \<and> map bot_messages cs = [5] \<and> map user_messages cs = [8]
        \<and> list_all messages_split cs)"
proof -
  have u: "unit_interval (constant_host 0.8)"
    by (simp add: unit_interval_def constant_host_def utc_host_def)
  have "\<exists>cs cc c'. generateConversations (constant_host 0.8) tiny [workspace0] [account0] [] [] (0, 2)
                 = Some (cs, cc, c')
        \<and> map message_count cs = [13] \<and> map bot_messages cs = [5] \<and> map user_messages cs = [8]"
    by (simp add: generateConversations_def newConversation_def tiny_def workspace0_def
        account0_def generateHash_numeral CONFIG_conversationStates_def tryonStates_def
        sampling_defs)
  then obtain cs cc c' where
    run: "generateConversations (constant_host 0.8) tiny [workspace0] [account0] [] [] (0, 2)
            = Some (cs, cc, c')"
    and st: "map message_count cs = [13]" "map bot_messages cs = [5]" "map user_messages cs = [8]"
    by (elim exE conjE)
  have "list_all messages_split cs"
    using generateConversations_messages [OF u run] by (simp add: list_all_iff)
  with u run st show ?thesis
    by simp
qed

section \<open>Inventory history\<close>

text \<open>
  A ledger record is consistent: the amount is the difference of the two quantities, the
  new quantity is in \<open>[0, 500]\<close>, and the quantity changed.
\<close>

lemma inventoryChange_step:
  assumes "inventoryChange E v (stock, c) = Some (out, (stock', c'))"
  shows "\<exists>changeAmount. stock' = clamp (stock + changeAmount) 0 500"
    and "out = [] \<longleftrightarrow> stock' = stock"
    and "length out \<le> 1"
    and "\<forall>h \<in> set out. previous_quantity h = stock \<and> new_quantity h = stock'
           \<and> change_amount h = stock' - stock"
proof -
  obtain r i where c: "c = (r, i)"
    by (cases c)
  obtain src r1 where s: "randomChoice E changeSources r = (src, r1)"
    by (cases "randomChoice E changeSources r")
  from assms obtain source where src: "src = Some source"
    by (cases src) (simp_all add: inventoryChange_def c s)
  from assms obtain changeAmount r2 where d: "drawChangeAmount E source r1 = Some (changeAmount, r2)"
    by (cases "drawChangeAmount E source r1") (auto simp: inventoryChange_def c s src)
  note defs = inventoryChange_def c s src d Let_def generateId_def
  show "\<exists>changeAmount. stock' = clamp (stock + changeAmount) 0 500"
    using assms by (auto simp: defs split: if_splits)
  show "out = [] \<longleftrightarrow> stock' = stock"
    using assms by (auto simp: defs split: if_splits)
  show "length out \<le> 1"
    using assms by (auto simp: defs split: if_splits)
  show "\<forall>h \<in> set out. previous_quantity h = stock \<and> new_quantity h = stock'
           \<and> change_amount h = stock' - stock"
    using assms by (auto simp: defs split: if_splits)
qed

lemma clamp_range: "0 \<le> clamp (x::int) 0 500 \<and> clamp x 0 500 \<le> 500"
  by (simp add: clamp_def)

lemma inventoryChange_ledger:
  assumes "inventoryChange E v s = Some (out, s')"
  shows "\<forall>h \<in> set out. ledger_consistent h"
proof -
  obtain stock c where s: "s = (stock, c)"
    by (cases s)
  obtain stock' c' where s': "s' = (stock', c')"
    by (cases s')
  note step = inventoryChange_step [OF assms [unfolded s s']]
  from step(1) obtain a where "stock' = clamp (stock + a) 0 500"
    by blast
  then have "0 \<le> stock' \<and> stock' \<le> 500"
    using clamp_range [of "stock + a"] by simp
  moreover have "\<forall>h \<in> set out. stock' \<noteq> stock"
    using step(2) by auto
  ultimately show ?thesis
    using step(4) by (auto simp: ledger_consistent_def)
qed

lemma generateInventoryHistory_ledger:
  assumes "generateInventoryHistory E sc vs c = Some (hs, c')"
  shows "\<forall>h \<in> set hs. ledger_consistent h"
proof (rule for_each_all [OF _ assms [unfolded generateInventoryHistory_def]])
  fix v s ys s'
  assume "v \<in> set vs"
    and body: "(case s of (r, i) \<Rightarrow> do {
       let (extra, r1) = randomInt E 20 100 r;
       (hs, (stock, c')) \<leftarrow>
         for_range 0 (daysOfHistory sc) (\<lambda>day (stock, (r, i)).
           let (changesPerDay, r') = randomInt E 0 3 r
           in for_range 0 (nat changesPerDay) (\<lambda>_. inventoryChange E v) (stock, (r', i)))
         (inventory_quantity v + extra, (r1, i));
       Some (hs, c')
     }) = Some (ys, s')"
  obtain r i where s: "s = (r, i)"
    by (cases s)
  obtain extra r1 where e: "randomInt E 20 100 r = (extra, r1)"
    by (cases "randomInt E 20 100 r")
  from body obtain stock where
    days: "for_range 0 (daysOfHistory sc) (\<lambda>day (stock, (r, i)).
           let (changesPerDay, r') = randomInt E 0 3 r
           in for_range 0 (nat changesPerDay) (\<lambda>_. inventoryChange E v) (stock, (r', i)))
         (inventory_quantity v + extra, (r1, i)) = Some (ys, (stock, s'))"
    by (auto simp: s e split: Option.bind_splits)
  show "\<forall>h \<in> set ys. ledger_consistent h"
  proof (rule for_range_all [OF _ days])
    fix day t zs t'
    assume day: "(case t of (stock, (r, i)) \<Rightarrow>
           let (changesPerDay, r') = randomInt E 0 3 r
           in for_range 0 (nat changesPerDay) (\<lambda>_. inventoryChange E v) (stock, (r', i)))
          = Some (zs, t')"
    obtain st r i where t: "t = (st, (r, i))"
      by (cases t) auto
    obtain n r' where n: "randomInt E 0 3 r = (n, r')"
      by (cases "randomInt E 0 3 r")
    have changes: "for_range 0 (nat n) (\<lambda>_. inventoryChange E v) (st, (r', i)) = Some (zs, t')"
      using day by (simp add: t n)
    show "\<forall>h \<in> set zs. ledger_consistent h"
      by (rule for_range_all [OF _ changes]) (rule inventoryChange_ledger)
  qed
qed

text \<open>
  C5. Every record produced by \<open>generateInventoryHistory\<close> has
  \<open>change_amount = new_quantity - previous_quantity\<close>, a new quantity in \<open>[0, 500]\<close> and
  a new quantity that differs from the previous one. A pass of the innermost loop clamps
  the running stock and pushes a record exactly when the clamped stock changed: a change
  that the clamp absorbs pushes none.
\<close>

theorem inventory_ledger:
  "(generateInventoryHistory E sc vs c = Some (hs, c') \<longrightarrow> (\<forall>h \<in> set hs. ledger_consistent h))
   \<and> (inventoryChange E v (stock, c) = Some (out, (stock', c'')) \<longrightarrow>
        (out = [] \<longleftrightarrow> stock' = stock) \<and> length out \<le> 1
        \<and> (\<forall>h \<in> set out. previous_quantity h = stock \<and> new_quantity h = stock'))"
  using generateInventoryHistory_ledger [of E sc vs c hs c']
    inventoryChange_step(2,3,4) [of E v stock c out stock' c'']
  by blast

theorem inventory_ledger_witness:
  "(\<exists>hs c'. generateInventoryHistory (constant_host 0.8) tiny [variant0] (0, 4) = Some (hs, c')
       \<and> map previous_quantity hs = [89, 91, 93] \<and> map new_quantity hs = [91, 93, 95]
       \<and> map change_amount hs = [2, 2, 2]
       \<and> list_all ledger_consistent hs)
   \<and> (\<exists>out c''. inventoryChange (constant_host 0.99) variant0 (500, (0, 4)) = Some (out, (500, c''))
       \<and> out = [])"
proof -
  have "\<exists>hs c'. generateInventoryHistory (constant_host 0.8) tiny [variant0] (0, 4) = Some (hs, c')
       \<and> map previous_quantity hs = [89, 91, 93] \<and> map new_quantity hs = [91, 93, 95]
       \<and> map change_amount hs = [2, 2, 2]"
    by (simp add: generateInventoryHistory_def inventoryChange_def drawChangeAmount_def
        changeSources_def clamp_def tiny_def variant0_def for_range_numeral sampling_defs)
  then obtain hs c' where
    run: "generateInventoryHistory (constant_host 0.8) tiny [variant0] (0, 4) = Some (hs, c')"
    and v: "map previous_quantity hs = [89, 91, 93]" "map new_quantity hs = [91, 93, 95]"
      "map change_amount hs = [2, 2, 2]"
    by (elim exE conjE)
  have "\<exists>out c''. inventoryChange (constant_host 0.99) variant0 (500, (0, 4)) = Some (out, (500, c''))"
    by (simp add: inventoryChange_def drawChangeAmount_def
        changeSources_def clamp_def variant0_def sampling_defs)
  then obtain out c'' where
    step: "inventoryChange (constant_host 0.99) variant0 (500, (0, 4)) = Some (out, (500, c''))"
    by (elim exE)
  have "list_all ledger_consistent hs"
    using run inventory_ledger [where E = "constant_host 0.8" and sc = tiny and vs = "[variant0]"
        and c = "(0, 4)" and hs = hs and c' = c']
    by (simp add: list_all_iff)
  moreover have "out = []"
    using step inventory_ledger [where E = "constant_host 0.99" and v = variant0 and stock = 500
        and c = "(0, 4)" and out = out and stock' = 500 and c'' = c'']
    by simp
  ultimately have "list_all ledger_consistent hs" and "out = []"
    by simp_all
  with run v step show ?thesis
    by simp
qed

section \<open>Customer profiles\<close>






section \<open>Customer journeys\<close>

lemma timeRange_positive: "0 < fst (timeRange t) \<and> fst (timeRange t) \<le> snd (timeRange t)"
  by (cases t) (simp_all add: timeRange_def)

lemma getTimeToNextEvent_positive:
  assumes "unit_interval E"
  shows "0 < fst (getTimeToNextEvent E t r)"
  using randomInt_range [OF assms, of "fst (timeRange t)" "snd (timeRange t)" r]
    timeRange_positive [of t]
  by (simp add: getTimeToNextEvent_def)

lemma newJourneyEvent_fields:
  assumes "newJourneyEvent E ctx sequence k (t, (r, i)) = (out, (t', (r', i')))"
  shows "\<exists>j. out = [j] \<and> session_id j = ctx_session_id ctx \<and> event_timestamp j = t
            \<and> session_event_number j = Suc k
            \<and> is_session_first_event j = (k = 0)
            \<and> is_session_last_event j = (Suc k = length sequence)
            \<and> journey_workspace_id j = ctx_workspace_id ctx
            \<and> journey_id j = uuidv4 E i"
    and "\<exists>q. t' = t + fst (getTimeToNextEvent E (sequence ! k) q)"
    and "i' = i + 1"
proof -
  obtain seconds r2 where s: "randomInt E 5 300 (snd (maybeNull E () r)) = (seconds, r2)"
    by (cases "randomInt E 5 300 (snd (maybeNull E () r))")
  obtain timeToNext r3 where n: "getTimeToNextEvent E (sequence ! k) r2 = (timeToNext, r3)"
    by (cases "getTimeToNextEvent E (sequence ! k) r2")
  note defs = newJourneyEvent_def Let_def generateId_def s n
  show "\<exists>j. out = [j] \<and> session_id j = ctx_session_id ctx \<and> event_timestamp j = t
            \<and> session_event_number j = Suc k
            \<and> is_session_first_event j = (k = 0)
            \<and> is_session_last_event j = (Suc k = length sequence)
            \<and> journey_workspace_id j = ctx_workspace_id ctx
            \<and> journey_id j = uuidv4 E i"
    using assms by (auto simp: defs)
  show "\<exists>q. t' = t + fst (getTimeToNextEvent E (sequence ! k) q)"
    using assms n by (intro exI [of _ r2]) (auto simp: defs)
  show "i' = i + 1"
    using assms by (auto simp: defs)
qed

text \<open>The events emitted from index \<open>k\<close> on, for the \<open>n\<close> indices that are left.\<close>

lemma emit_from:
  assumes "unit_interval E"
    and "for_range k n (\<lambda>eventIndex s. Some (newJourneyEvent E ctx sequence eventIndex s)) (t, (r, i))
         = Some (evs, (t', (r', i')))"
  shows "map session_event_number evs = map Suc [k..<k + n]
         \<and> (\<forall>j \<in> set evs. session_id j = ctx_session_id ctx
               \<and> journey_workspace_id j = ctx_workspace_id ctx
               \<and> is_session_first_event j = (session_event_number j = 1)
               \<and> is_session_last_event j = (session_event_number j = length sequence)
               \<and> t \<le> event_timestamp j)
         \<and> sorted_wrt (\<lambda>a b. a < b) (map event_timestamp evs)
         \<and> i' = i + n"
  using assms(2)
proof (induction n arbitrary: k t r i evs)
  case 0
  then show ?case by simp
next
  case (Suc n)
  obtain out t1 r1 i1 where b: "newJourneyEvent E ctx sequence k (t, (r, i)) = (out, (t1, (r1, i1)))"
    by (metis prod.exhaust)
  from Suc.prems b obtain zs where
    rest: "for_range (Suc k) n (\<lambda>eventIndex s. Some (newJourneyEvent E ctx sequence eventIndex s))
             (t1, (r1, i1)) = Some (zs, (t', (r', i')))"
    and evs: "evs = out @ zs"
    by (auto split: option.splits prod.splits)
  from newJourneyEvent_fields [OF b] obtain j q where
    j: "out = [j]" "session_id j = ctx_session_id ctx" "event_timestamp j = t"
      "session_event_number j = Suc k" "is_session_first_event j = (k = 0)"
      "is_session_last_event j = (Suc k = length sequence)"
      "journey_workspace_id j = ctx_workspace_id ctx"
    and t1: "t1 = t + fst (getTimeToNextEvent E (sequence ! k) q)" and i1: "i1 = i + 1"
    by blast
  have lt: "t < t1"
    using getTimeToNextEvent_positive [OF assms(1), of "sequence ! k" q] t1 by simp
  note ih = Suc.IH [OF rest]
  have nums: "map session_event_number evs = map Suc [k..<k + Suc n]"
    using ih j(1,4) by (simp add: evs upt_rec [of k])
  have later: "\<forall>z \<in> set zs. t1 \<le> event_timestamp z"
    using ih by blast
  have "sorted_wrt (\<lambda>a b. a < b) (map event_timestamp evs)"
    using ih later lt by (auto simp: evs j(1,3))
  moreover have "\<forall>e \<in> set evs. session_id e = ctx_session_id ctx
               \<and> journey_workspace_id e = ctx_workspace_id ctx
               \<and> is_session_first_event e = (session_event_number e = 1)
               \<and> is_session_last_event e = (session_event_number e = length sequence)
               \<and> t \<le> event_timestamp e"
    using ih later lt j by (auto simp: evs)
  moreover have "i' = i + Suc n"
    using ih i1 by simp
  ultimately show ?case
    using nums by blast
qed

lemma filter_key_absent: "x \<notin> f ` set evs \<Longrightarrow> filter (\<lambda>j. f j = x) evs = []"
  by (induction evs) auto

lemma filter_key_unique:
  assumes "distinct (map f evs)" "x \<in> set (map f evs)"
  shows "length (filter (\<lambda>j. f j = x) evs) = 1"
  using assms by (induction evs) (auto simp: filter_key_absent)

lemma emitSession_ordered:
  assumes "unit_interval E" "sequence \<noteq> []"
    and "emitSession E ctx sequence start (r, i) = Some (evs, (t', (r', i')))"
  shows "session_ordered evs" and "evs \<noteq> []"
    and "\<forall>j \<in> set evs. session_id j = ctx_session_id ctx \<and> journey_workspace_id j = ctx_workspace_id ctx"
    and "i' = i + length sequence"
proof -
  let ?n = "length sequence"
  note e = emit_from [OF assms(1) assms(3) [unfolded emitSession_def]]
  have nums: "map session_event_number evs = map Suc [0..<?n]"
    using e by simp
  have len: "length evs = ?n"
    using arg_cong [OF nums, of length] by simp
  have pos: "0 < ?n"
    using assms(2) by simp
  have dist: "distinct (map session_event_number evs)"
    unfolding nums by (simp add: distinct_map)
  have "0 \<in> set [0..<?n]"
    using pos by simp
  then have "Suc 0 \<in> Suc ` set [0..<?n]"
    by (rule imageI)
  then have one: "1 \<in> set (map session_event_number evs)"
    unfolding nums by simp
  have "?n - 1 \<in> set [0..<?n]"
    using assms(2) by (cases sequence) simp_all
  then have "Suc (?n - 1) \<in> Suc ` set [0..<?n]"
    by (rule imageI)
  moreover have "Suc (?n - 1) = ?n"
    using assms(2) by (cases sequence) simp_all
  ultimately have last: "?n \<in> set (map session_event_number evs)"
    unfolding nums by simp
  have first_eq: "filter is_session_first_event evs = filter (\<lambda>j. session_event_number j = 1) evs"
    using e by (intro filter_cong) auto
  have last_eq: "filter is_session_last_event evs = filter (\<lambda>j. session_event_number j = ?n) evs"
    using e by (intro filter_cong) auto
  have c1: "length (filter is_session_first_event evs) = 1"
    unfolding first_eq by (rule filter_key_unique [OF dist one])
  have c2: "length (filter is_session_last_event evs) = 1"
    unfolding last_eq by (rule filter_key_unique [OF dist last])
  have c3: "(\<exists>j \<in> set evs. is_session_first_event j \<and> is_session_last_event j) \<longleftrightarrow> length evs = 1"
  proof
    assume "\<exists>j \<in> set evs. is_session_first_event j \<and> is_session_last_event j"
    then obtain j where "j \<in> set evs" "is_session_first_event j" "is_session_last_event j"
      by blast
    then have "?n = 1"
      using e by auto
    then show "length evs = 1"
      using len by simp
  next
    assume l: "length evs = 1"
    then obtain j where j: "evs = [j]"
      by (cases evs) auto
    have n1: "?n = 1"
      using l len by simp
    have "session_event_number j = 1"
      using nums by (simp add: j n1)
    then have "is_session_first_event j \<and> is_session_last_event j"
      using e by (simp add: j n1)
    then show "\<exists>j \<in> set evs. is_session_first_event j \<and> is_session_last_event j"
      by (simp add: j)
  qed
  have strict: "sorted_wrt (\<lambda>a b. a < b) (map event_timestamp evs)"
    using e by blast
  then have "sorted (map event_timestamp evs)"
    by (rule sorted_wrt_mono_rel [rotated]) simp
  with strict c1 c2 c3 show "session_ordered evs"
    by (simp add: session_ordered_def)
  show "evs \<noteq> []"
    using len pos by auto
  show "\<forall>j \<in> set evs. session_id j = ctx_session_id ctx \<and> journey_workspace_id j = ctx_workspace_id ctx"
    using e by blast
  show "i' = i + length sequence"
    using e by simp
qed

text \<open>
  The output of a run of sessions: a sequence of blocks, one for each session, whose
  session identifiers are the uuids at distinct positions of the stream between the
  positions \<open>i\<close> and \<open>i'\<close> of the cursor.
\<close>

lemma session_blocks_refl: "session_blocks E i [] i"
  unfolding session_blocks_def by (auto intro!: exI [of _ "[]"])

lemma session_blocks_trans:
  assumes "session_blocks E i xs i1" "session_blocks E i1 ys i2"
  shows "session_blocks E i (xs @ ys) i2"
proof -
  from assms(1) obtain s1 where
    a: "i \<le> i1" "xs = concat (map snd s1)" "distinct (map fst s1)" "fst ` set s1 \<subseteq> {i..<i1}"
      "\<forall>(k, b) \<in> set s1. b \<noteq> [] \<and> session_ordered b \<and> (\<forall>j \<in> set b. session_id j = uuidv4 E k)"
    unfolding session_blocks_def by blast
  from assms(2) obtain s2 where
    b: "i1 \<le> i2" "ys = concat (map snd s2)" "distinct (map fst s2)" "fst ` set s2 \<subseteq> {i1..<i2}"
      "\<forall>(k, b) \<in> set s2. b \<noteq> [] \<and> session_ordered b \<and> (\<forall>j \<in> set b. session_id j = uuidv4 E k)"
    unfolding session_blocks_def by blast
  have disj: "fst ` set s1 \<inter> fst ` set s2 = {}"
    using a(4) b(4) by fastforce
  have "xs @ ys = concat (map snd (s1 @ s2))"
    using a(2) b(2) by simp
  moreover have "distinct (map fst (s1 @ s2))"
    using a(3) b(3) disj by simp
  moreover have "fst ` set (s1 @ s2) \<subseteq> {i..<i2}"
    using a(1,4) b(1,4) by fastforce
  moreover have "\<forall>(k, b) \<in> set (s1 @ s2). b \<noteq> [] \<and> session_ordered b
                   \<and> (\<forall>j \<in> set b. session_id j = uuidv4 E k)"
    using a(5) b(5) by auto
  moreover have "i \<le> i2"
    using a(1) b(1) by simp
  ultimately show ?thesis
    unfolding session_blocks_def by blast
qed

lemma eventSequences_nonempty: "s \<in> set eventSequences \<Longrightarrow> s \<noteq> []"
  by (auto simp: eventSequences_def)

lemma newSession_block:
  assumes "unit_interval E"
    and "newSession E sc ws posts prods perf convs (r, i) = Some (evs, (r', i'))"
  shows "session_blocks E i evs i'"
    and "\<forall>j \<in> set evs. journey_workspace_id j = workspace_id ws"
proof -
  from assms(2) obtain ctx sequence start r7 t where
    em: "emitSession E ctx sequence start (r7, i + 1) = Some (evs, (t, (r', i')))"
    and sid: "ctx_session_id ctx = uuidv4 E i" and wid: "ctx_workspace_id ctx = workspace_id ws"
    and seq: "sequence \<in> set eventSequences"
    unfolding newSession_def
    by (auto simp: Let_def generateId_def split: prod.splits Option.bind_splits if_splits)
  note o = emitSession_ordered [OF assms(1) eventSequences_nonempty [OF seq] em]
  have "i \<le> i'"
    using o(4) by simp
  moreover have "evs = concat (map snd [(i, evs)])" "distinct (map fst [(i, evs)])"
    by simp_all
  moreover have "fst ` set [(i, evs)] \<subseteq> {i..<i'}"
    using o(4) by simp
  moreover have "\<forall>(k, b) \<in> set [(i, evs)]. b \<noteq> [] \<and> session_ordered b
                   \<and> (\<forall>j \<in> set b. session_id j = uuidv4 E k)"
    using o(1,2,3) sid by simp
  ultimately show "session_blocks E i evs i'"
    unfolding session_blocks_def by blast
  show "\<forall>j \<in> set evs. journey_workspace_id j = workspace_id ws"
    using o(3) wid by simp
qed

lemma generateCustomerJourneys_rel:
  assumes step: "\<And>ws posts prods perf r i evs r' i'. ws \<in> set wss \<Longrightarrow>
        newSession E sc ws posts prods perf convs (r, i) = Some (evs, (r', i')) \<Longrightarrow>
        R (snd (r, i)) evs (snd (r', i'))"
    and refl: "\<And>i. R i [] i"
    and trans: "\<And>i ys i1 zs i2. R i ys i1 \<Longrightarrow> R i1 zs i2 \<Longrightarrow> R i (ys @ zs) i2"
    and run: "generateCustomerJourneys E sc wss wposts wprods convs c = Some (js, c')"
  shows "R (snd c) js (snd c')"
proof (rule for_each_rel [where R = "\<lambda>s out s'. R (snd s) out (snd s')",
      OF _ _ _ run [unfolded generateCustomerJourneys_def]])
  show "R (snd s) [] (snd s)" for s :: cursor
    by (rule refl)
  show "R (snd s) (ys @ zs) (snd s2)" if "R (snd s) ys (snd s1)" "R (snd s1) zs (snd s2)"
    for s s1 s2 :: cursor and ys zs
    using that by (rule trans)
  fix ws s ys s'
  assume ws: "ws \<in> set wss"
    and body: "(case s of (r, i) \<Rightarrow> do {
       posts \<leftarrow> wposts (workspace_id ws);
       let prods = wprods (workspace_id ws);
       let (postPerformance, r1) = assignTiers E posts Map.empty r;
       for_range 0 (customersPerWorkspace sc)
         (\<lambda>_. newSession E sc ws posts prods postPerformance convs) (r1, i)
     }) = Some (ys, s')"
  obtain r i where s: "s = (r, i)"
    by (cases s)
  from body obtain posts perf r1 where
    loop: "for_range 0 (customersPerWorkspace sc)
         (\<lambda>_. newSession E sc ws posts (wprods (workspace_id ws)) perf convs) (r1, i) = Some (ys, s')"
    by (auto simp: s Let_def split: Option.bind_splits prod.splits)
  have "R (snd (r1, i)) ys (snd s')"
  proof (rule for_range_rel [where R = "\<lambda>s out s'. R (snd s) out (snd s')", OF _ _ _ loop])
    show "R (snd s) [] (snd s)" for s :: cursor
      by (rule refl)
    show "R (snd s) (ys @ zs) (snd s2)" if "R (snd s) ys (snd s1)" "R (snd s1) zs (snd s2)"
      for s s1 s2 :: cursor and ys zs
      using that by (rule trans)
    fix k t zs t'
    assume n: "newSession E sc ws posts (wprods (workspace_id ws)) perf convs t = Some (zs, t')"
    obtain a b where t: "t = (a, b)"
      by (cases t)
    obtain a' b' where t': "t' = (a', b')"
      by (cases t')
    show "R (snd t) zs (snd t')"
      using step [OF ws n [unfolded t t']] by (simp add: t t')
  qed
  then show "R (snd s) ys (snd s')"
    by (simp add: s)
qed

lemma filter_foreign_block:
  assumes "\<forall>j \<in> set b. f j \<noteq> x"
  shows "filter (\<lambda>j. f j = x) b = []"
  using assms by (induction b) auto

lemma filter_own_block:
  assumes "\<forall>j \<in> set b. f j = x"
  shows "filter (\<lambda>j. f j = x) b = b"
  using assms by (induction b) auto

lemma filter_concat_block:
  assumes "distinct (map fst sess)" "inj u"
    and "\<forall>(k, b) \<in> set sess. \<forall>j \<in> set b. f j = u k"
    and "(k0, b0) \<in> set sess"
  shows "filter (\<lambda>j. f j = u k0) (concat (map snd sess)) = b0"
  using assms(1,3,4)
proof (induction sess)
  case Nil
  then show ?case by simp
next
  case (Cons p sess)
  obtain k b where p: "p = (k, b)"
    by (cases p)
  show ?case
  proof (cases "k = k0")
    case True
    have "b0 = b"
      using Cons.prems(1,3) True p by (auto simp: image_iff)
    have own: "filter (\<lambda>j. f j = u k0) b = b"
      using Cons.prems(2) True p by (intro filter_own_block) auto
    have other: "\<forall>(k', b') \<in> set sess. k' \<noteq> k0"
      using Cons.prems(1) True p by (auto simp: image_iff)
    have "\<forall>(k', b') \<in> set sess. \<forall>j \<in> set b'. f j \<noteq> u k0"
    proof (clarify)
      fix k' b' j
      assume m: "(k', b') \<in> set sess" "j \<in> set b'" and e: "f j = u k0"
      have "f j = u k'"
        using Cons.prems(2) m by auto
      then have "k' = k0"
        using e injD [OF assms(2), of k' k0] by simp
      then show False
        using other m(1) by auto
    qed
    then have "filter (\<lambda>j. f j = u k0) (concat (map snd sess)) = []"
      by (intro filter_foreign_block) auto
    then show ?thesis
      using own \<open>b0 = b\<close> by (simp add: p)
  next
    case False
    have "\<forall>j \<in> set b. f j \<noteq> u k0"
      using Cons.prems(2) False assms(2) p by (auto dest: injD)
    then have "filter (\<lambda>j. f j = u k0) b = []"
      by (rule filter_foreign_block)
    moreover have "filter (\<lambda>j. f j = u k0) (concat (map snd sess)) = b0"
      using Cons.prems False p by (intro Cons.IH) auto
    ultimately show ?thesis
      by (simp add: p)
  qed
qed

lemma session_blocks_sessions:
  assumes "inj (uuidv4 E)" "session_blocks E i out i'"
  shows "\<forall>sid \<in> session_id ` set out. session_ordered (filter (\<lambda>j. session_id j = sid) out)"
proof
  fix sid
  assume "sid \<in> session_id ` set out"
  then obtain j where j: "j \<in> set out" "session_id j = sid"
    by blast
  from assms(2) obtain sess where
    a: "out = concat (map snd sess)" "distinct (map fst sess)"
      "\<forall>(k, b) \<in> set sess. b \<noteq> [] \<and> session_ordered b \<and> (\<forall>j \<in> set b. session_id j = uuidv4 E k)"
    unfolding session_blocks_def by blast
  from j(1) a(1) obtain k b where kb: "(k, b) \<in> set sess" "j \<in> set b"
    by auto
  have sid: "sid = uuidv4 E k"
    using a(3) kb j(2) by auto
  have "filter (\<lambda>j. session_id j = uuidv4 E k) (concat (map snd sess)) = b"
    using a(3) by (intro filter_concat_block [OF a(2) assms(1) _ kb(1)]) auto
  moreover have "session_ordered b"
    using a(3) kb(1) by auto
  ultimately show "session_ordered (filter (\<lambda>j. session_id j = sid) out)"
    by (simp add: sid a(1))
qed

text \<open>
  C9. In the events produced by \<open>generateCustomerJourneys\<close>, the events that share a
  session identifier, in emission order, have increasing timestamps (every delay drawn by
  \<open>getTimeToNextEvent\<close> is positive), exactly one of them is flagged first and exactly
  one last, and an event carries both flags exactly when the session has a single event.
  The uuid library is taken to hand out distinct identifiers.
\<close>

theorem journeys_session_order:
  assumes "unit_interval E" "inj (uuidv4 E)"
    and "generateCustomerJourneys E sc wss wposts wprods convs c = Some (js, c')"
  shows "(\<forall>sid \<in> session_id ` set js. session_ordered (filter (\<lambda>j. session_id j = sid) js))
         \<and> (\<forall>t r. 0 < fst (getTimeToNextEvent E t r))"
proof -
  have "session_blocks E (snd c) js (snd c')"
    by (rule generateCustomerJourneys_rel [OF _ session_blocks_refl session_blocks_trans assms(3)])
       (simp add: newSession_block(1) [OF assms(1)])
  then show ?thesis
    using session_blocks_sessions [OF assms(2)] getTimeToNextEvent_positive [OF assms(1)]
    by blast
qed

lemmas journey_defs = generateCustomerJourneys_def getPerformanceTier_def
  CONFIG_postPerformance_distribution_def newSession_def generateHash_numeral
  getWeightedDeviceWithConversion_def CONFIG_devices_distribution_def getWeightedCountry_def
  weightedChoice_def CONFIG_geography_countries_def getSeasonallyWeightedDate_def
  withTimeOfDay_def getWeightedHourOfDay_def CONFIG_hourlyWeights_def orOne_def
  CONFIG_seasonality_monthly_def utc_month_def CONFIG_dailyWeights_def selectWeightedPost_def
  postWeight_def CONFIG_devices_conversionMultiplier_def adjustProbabilities_def clamp_def
  eventProbabilities_def eventSequences_def emitSession_def newJourneyEvent_def maybeNull_def
  CONFIG_output_nullProbability_def getTimeToNextEvent_def timeRange_def getEventFunnelStage_def

lemma bind_weak_cong: "m = m' \<Longrightarrow> Option.bind m f = Option.bind m' f"
  by simp

lemma for_range_weak_cong:
  "i = i' \<Longrightarrow> n = n' \<Longrightarrow> s = s' \<Longrightarrow> for_range i n body s = for_range i' n' body s'"
  by simp

lemma for_each_weak_cong:
  "xs = xs' \<Longrightarrow> s = s' \<Longrightarrow> for_each xs body s = for_each xs' body s'"
  by simp

text \<open>
  Congruence rules for evaluating a run on a concrete input: only the value a binder is
  applied to is simplified, never the body under the binder.
\<close>

lemmas by_value = let_weak_cong prod.case_cong_weak option.case_cong_weak bind_weak_cong
  for_range_weak_cong for_each_weak_cong

lemmas month_defs = utc_month_def month_of_day_of_era_def month_index_def day_of_year_def year_of_era_def

theorem journeys_session_order_witness:
  "unit_interval (constant_host 0.99) \<and> inj (uuidv4 (constant_host 0.99))
   \<and> (\<exists>js c'. generateCustomerJourneys (constant_host 0.99) two_customers [workspace0]
                   [0 \<mapsto> [post0]] [0 \<mapsto> []] [] (0, 9) = Some (js, c')
         \<and> map session_id js = [9, 9, 12, 12]
         \<and> map event_timestamp js = [1699999199000, 1699999208920, 1699999199000, 1699999208920]
         \<and> map is_session_first_event js = [True, False, True, False]
         \<and> map is_session_last_event js = [False, True, False, True]
         \<and> list_all (\<lambda>sid. session_ordered (filter (\<lambda>j. session_id j = sid) js))
               (map session_id js))"
proof -
  have u: "unit_interval (constant_host 0.99)"
    by (simp add: unit_interval_def constant_host_def utc_host_def)
  have i: "inj (uuidv4 (constant_host 0.99))"
    by (simp add: constant_host_def utc_host_def)
  have "\<exists>js c'. generateCustomerJourneys (constant_host 0.99) two_customers [workspace0]
                   [0 \<mapsto> [post0]] [0 \<mapsto> []] [] (0, 9) = Some (js, c')
         \<and> map session_id js = [9, 9, 12, 12]
         \<and> map event_timestamp js = [1699999199000, 1699999208920, 1699999199000, 1699999208920]
         \<and> map is_session_first_event js = [True, False, True, False]
         \<and> map is_session_last_event js = [False, True, False, True]"
    by (simp add: journey_defs month_defs two_customers_def tiny_def workspace0_def post0_def
        sampling_defs cong: by_value)
  then obtain js c' where
    run: "generateCustomerJourneys (constant_host 0.99) two_customers [workspace0]
                   [0 \<mapsto> [post0]] [0 \<mapsto> []] [] (0, 9) = Some (js, c')"
    and v: "map session_id js = [9, 9, 12, 12]"
      "map event_timestamp js = [1699999199000, 1699999208920, 1699999199000, 1699999208920]"
      "map is_session_first_event js = [True, False, True, False]"
      "map is_session_last_event js = [False, True, False, True]"
    by (elim exE conjE)
  have "list_all (\<lambda>sid. session_ordered (filter (\<lambda>j. session_id j = sid) js)) (map session_id js)"
    using journeys_session_order [OF u i run] by (simp add: list_all_iff)
  with u i run v show ?thesis
    by simp
qed

section \<open>Identifiers and foreign keys\<close>

text \<open>
  The identifiers of the records \<open>xs\<close> are the uuids at distinct positions of the stream
  between the positions \<open>i\<close> and \<open>i'\<close>.
\<close>

lemma fresh_ids_refl: "fresh_ids E key i [] i"
  unfolding fresh_ids_def by (auto intro!: exI [of _ "[]"])

lemma fresh_ids_trans:
  assumes "fresh_ids E key i xs i1" "fresh_ids E key i1 ys i2"
  shows "fresh_ids E key i (xs @ ys) i2"
proof -
  from assms(1) obtain ks where
    a: "i \<le> i1" "map key xs = map (uuidv4 E) ks" "distinct ks" "set ks \<subseteq> {i..<i1}"
    unfolding fresh_ids_def by blast
  from assms(2) obtain ls where
    b: "i1 \<le> i2" "map key ys = map (uuidv4 E) ls" "distinct ls" "set ls \<subseteq> {i1..<i2}"
    unfolding fresh_ids_def by blast
  have "set ks \<inter> set ls = {}"
    using a(4) b(4) by fastforce
  then have "distinct (ks @ ls)"
    using a(3) b(3) by simp
  moreover have "map key (xs @ ys) = map (uuidv4 E) (ks @ ls)"
    using a(2) b(2) by simp
  moreover have "set (ks @ ls) \<subseteq> {i..<i2}"
    using a(1,4) b(1,4) by fastforce
  moreover have "i \<le> i2"
    using a(1) b(1) by simp
  ultimately show ?thesis
    unfolding fresh_ids_def by blast
qed

lemma fresh_ids_single:
  assumes "key x = uuidv4 E i" "i < i'"
  shows "fresh_ids E key i [x] i'"
  unfolding fresh_ids_def using assms by (auto intro!: exI [of _ "[i]"])

lemma fresh_ids_distinct:
  assumes "inj (uuidv4 E)" "fresh_ids E key i xs i'"
  shows "distinct (map key xs)"
proof -
  from assms(2) obtain ks where "map key xs = map (uuidv4 E) ks" "distinct ks"
    unfolding fresh_ids_def by blast
  moreover have "inj_on (uuidv4 E) (set ks)"
    using assms(1) by (rule inj_on_subset) simp
  ultimately show ?thesis
    by (simp add: distinct_map)
qed

lemma resolves_onceI:
  assumes "distinct (map key parents)" "k \<in> key ` set parents"
  shows "resolves_once key parents k"
  unfolding resolves_once_def using assms by (intro filter_key_unique) simp_all

section \<open>Workspaces\<close>

lemma newWorkspace_ids:
  assumes "newWorkspace E (r, i) = ((w, a), (r', i'))"
  shows "workspace_id w = uuidv4 E i" and "i' = i + 2"
  using assms by (auto simp: newWorkspace_def Let_def generateId_def split: prod.splits)

lemma generateWorkspaces_fresh:
  assumes "generateWorkspaces E sc c = Some (wss, accts, wp0, wposts0, c1)"
  shows "fresh_ids E workspace_id (snd c) wss (snd c1)"
    and "length wss = scale_workspaces sc" and "length accts = scale_workspaces sc"
proof -
  from assms obtain was where
    loop: "for_range 0 (scale_workspaces sc)
             (\<lambda>_ c. let (wa, c') = newWorkspace E c in Some ([wa], c')) c = Some (was, c1)"
    and wss: "wss = map fst was" and accts: "accts = map snd was"
    by (auto simp: generateWorkspaces_def split: Option.bind_splits)
  have "fresh_ids E (workspace_id \<circ> fst) (snd c) was (snd c1)"
  proof (rule for_range_rel [where R = "\<lambda>s out s'. fresh_ids E (workspace_id \<circ> fst) (snd s) out (snd s')",
        OF _ _ _ loop])
    show "fresh_ids E (workspace_id \<circ> fst) (snd s) [] (snd s)" for s :: cursor
      by (rule fresh_ids_refl)
    show "fresh_ids E (workspace_id \<circ> fst) (snd s) (ys @ zs) (snd s2)"
      if "fresh_ids E (workspace_id \<circ> fst) (snd s) ys (snd s1)"
        "fresh_ids E (workspace_id \<circ> fst) (snd s1) zs (snd s2)"
      for s s1 s2 :: cursor and ys zs
      using that by (rule fresh_ids_trans)
    fix k s ys s'
    assume b: "(let (wa, c') = newWorkspace E s in Some ([wa], c')) = Some (ys, s')"
    obtain r i where s: "s = (r, i)"
      by (cases s)
    obtain w a r' i' where n: "newWorkspace E (r, i) = ((w, a), (r', i'))"
      by (metis prod.exhaust)
    have ys: "ys = [(w, a)]" and s': "s' = (r', i')"
      using b by (simp_all add: s n)
    have "fresh_ids E (workspace_id \<circ> fst) i [(w, a)] i'"
      using newWorkspace_ids [OF n] by (intro fresh_ids_single) simp_all
    then show "fresh_ids E (workspace_id \<circ> fst) (snd s) ys (snd s')"
      by (simp add: ys s s')
  qed
  then show "fresh_ids E workspace_id (snd c) wss (snd c1)"
    by (simp add: fresh_ids_def wss)
  have "length was = scale_workspaces sc * 1"
    by (rule for_range_length [OF _ loop]) (auto split: prod.splits)
  then show "length wss = scale_workspaces sc" "length accts = scale_workspaces sc"
    by (simp_all add: wss accts)
qed

section \<open>Products\<close>

lemma newProduct_fields:
  assumes "newProduct E sc ws acct (r, i) = Some (p, (r', i'))"
  shows "product_id p = uuidv4 E i" and "product_workspace_id p = workspace_id ws" and "i' = i + 1"
  using assms
  by (auto simp: newProduct_def Let_def generateId_def split: prod.splits Option.bind_splits if_splits)

lemma generateProducts_loop:
  assumes "generateProducts E sc wss accts wp0 c = Some (prods, wp, c')"
  obtains "for_each wss (\<lambda>ws.
         let acct = List.find (\<lambda>a. account_workspace_id a = workspace_id ws) accts
         in for_range 0 (productsPerWorkspace sc) (\<lambda>_ (c, wp). do {
              (p, c') \<leftarrow> newProduct E sc ws acct c;
              wp' \<leftarrow> lookup_push wp (workspace_id ws) p;
              Some ([p], (c', wp'))
            })) (c, wp0) = Some (prods, (c', wp))"
  using assms by (auto simp: generateProducts_def split: Option.bind_splits)

lemma generateProducts_rel:
  assumes step: "\<And>ws acct r i p r' i'. ws \<in> set wss \<Longrightarrow>
        newProduct E sc ws acct (r, i) = Some (p, (r', i')) \<Longrightarrow> R i [p] i'"
    and refl: "\<And>i. R i [] i"
    and trans: "\<And>i ys i1 zs i2. R i ys i1 \<Longrightarrow> R i1 zs i2 \<Longrightarrow> R i (ys @ zs) i2"
    and run: "generateProducts E sc wss accts wp0 c = Some (prods, wp, c')"
  shows "R (snd c) prods (snd c')"
proof -
  let ?R = "\<lambda>(s :: cursor \<times> product lookup) out (s' :: cursor \<times> product lookup).
              R (snd (fst s)) out (snd (fst s'))"
  have r: "?R s [] s" for s
    by (simp add: refl)
  have t: "?R s (ys @ zs) s2" if "?R s ys s1" "?R s1 zs s2" for s s1 s2 ys zs
    using that trans by blast
  from run have loop: "for_each wss (\<lambda>ws.
         let acct = List.find (\<lambda>a. account_workspace_id a = workspace_id ws) accts
         in for_range 0 (productsPerWorkspace sc) (\<lambda>_ (c, wp). do {
              (p, c') \<leftarrow> newProduct E sc ws acct c;
              wp' \<leftarrow> lookup_push wp (workspace_id ws) p;
              Some ([p], (c', wp'))
            })) (c, wp0) = Some (prods, (c', wp))"
    by (rule generateProducts_loop)
  have "?R (c, wp0) prods (c', wp)"
  proof (rule for_each_rel [where R = ?R, OF _ r t loop])
    fix ws s ys s'
    assume ws: "ws \<in> set wss"
      and inner: "(let acct = List.find (\<lambda>a. account_workspace_id a = workspace_id ws) accts
         in for_range 0 (productsPerWorkspace sc) (\<lambda>_ (c, wp). do {
              (p, c') \<leftarrow> newProduct E sc ws acct c;
              wp' \<leftarrow> lookup_push wp (workspace_id ws) p;
              Some ([p], (c', wp'))
            })) s = Some (ys, s')"
    show "?R s ys s'"
    proof (rule for_range_rel [where R = ?R, OF _ r t inner [unfolded Let_def]])
      fix k u zs u'
      assume b: "(case u of (c, wp) \<Rightarrow> do {
              (p, c') \<leftarrow> newProduct E sc ws
                 (List.find (\<lambda>a. account_workspace_id a = workspace_id ws) accts) c;
              wp' \<leftarrow> lookup_push wp (workspace_id ws) p;
              Some ([p], (c', wp'))
            }) = Some (zs, u')"
      obtain a i m where u: "u = ((a, i), m)"
        by (cases u) auto
      from b obtain p a' i' m' where
        n: "newProduct E sc ws (List.find (\<lambda>a. account_workspace_id a = workspace_id ws) accts) (a, i)
              = Some (p, (a', i'))"
        and zs: "zs = [p]" and u': "u' = ((a', i'), m')"
        by (auto simp: u split: Option.bind_splits)
      show "?R u zs u'"
        using step [OF ws n] by (simp add: u u' zs)
    qed
  qed
  then show ?thesis
    by simp
qed

lemma generateProducts_facts:
  assumes "generateProducts E sc wss accts wp0 c = Some (prods, wp, c')"
  shows "fresh_ids E product_id (snd c) prods (snd c')"
    and "\<forall>p \<in> set prods. product_workspace_id p \<in> workspace_id ` set wss"
proof -
  show "fresh_ids E product_id (snd c) prods (snd c')"
    by (rule generateProducts_rel [OF _ fresh_ids_refl fresh_ids_trans assms])
       (auto dest: newProduct_fields intro!: fresh_ids_single)
  show "\<forall>p \<in> set prods. product_workspace_id p \<in> workspace_id ` set wss"
    by (rule generateProducts_rel [where R = "\<lambda>_ ps _. \<forall>p \<in> set ps. product_workspace_id p \<in> workspace_id ` set wss",
          OF _ _ _ assms])
       (auto dest: newProduct_fields)
qed

lemma generateProducts_length:
  assumes "generateProducts E sc wss accts wp0 c = Some (prods, wp, c')"
  shows "length prods = length wss * productsPerWorkspace sc"
proof -
  from assms have loop: "for_each wss (\<lambda>ws.
         let acct = List.find (\<lambda>a. account_workspace_id a = workspace_id ws) accts
         in for_range 0 (productsPerWorkspace sc) (\<lambda>_ (c, wp). do {
              (p, c') \<leftarrow> newProduct E sc ws acct c;
              wp' \<leftarrow> lookup_push wp (workspace_id ws) p;
              Some ([p], (c', wp'))
            })) (c, wp0) = Some (prods, (c', wp))"
    by (rule generateProducts_loop)
  show ?thesis
  proof (rule for_each_length [OF _ loop])
    fix ws s ys s'
    assume inner: "(let acct = List.find (\<lambda>a. account_workspace_id a = workspace_id ws) accts
         in for_range 0 (productsPerWorkspace sc) (\<lambda>_ (c, wp). do {
              (p, c') \<leftarrow> newProduct E sc ws acct c;
              wp' \<leftarrow> lookup_push wp (workspace_id ws) p;
              Some ([p], (c', wp'))
            })) s = Some (ys, s')"
    have "length ys = productsPerWorkspace sc * 1"
      by (rule for_range_length [OF _ inner [unfolded Let_def]])
         (auto split: Option.bind_splits prod.splits)
    then show "length ys = productsPerWorkspace sc"
      by simp
  qed
qed

section \<open>Variants\<close>

lemma newVariant_fields:
  assumes "newVariant E sc p c = Some (v, c')"
  shows "variant_product_id v = product_id p"
  using assms
  by (cases c) (auto simp: newVariant_def Let_def generateId_def split: prod.splits Option.bind_splits)

lemma variant_singleton:
  assumes "newVariant E sc p c \<bind> (\<lambda>(v, c'). Some ([v], c')) = Some (ys, s')"
  obtains v where "newVariant E sc p c = Some (v, s')" "ys = [v]"
  using assms by (auto split: Option.bind_splits)

lemma generateProductVariants_facts:
  assumes "generateProductVariants E sc prods c = Some (vars, c')"
  shows "\<forall>v \<in> set vars. variant_product_id v \<in> product_id ` set prods"
    and "length vars = length prods * variantsPerProduct sc"
proof -
  note run = assms [unfolded generateProductVariants_def]
  show "\<forall>v \<in> set vars. variant_product_id v \<in> product_id ` set prods"
  proof (rule for_each_all [OF _ run])
    fix p s ys s'
    assume p: "p \<in> set prods"
      and inner: "(case s of (r, i) \<Rightarrow>
          for_range 0 (variantsPerProduct sc) (\<lambda>_ c. do {
            (v, c') \<leftarrow> newVariant E sc p c;
            Some ([v], c')
          }) (unusedDraws 1 r, i)) = Some (ys, s')"
    obtain r i where s: "s = (r, i)"
      by (cases s)
    have loop: "for_range 0 (variantsPerProduct sc) (\<lambda>_ c. do {
            (v, c') \<leftarrow> newVariant E sc p c;
            Some ([v], c')
          }) (unusedDraws 1 r, i) = Some (ys, s')"
      using inner by (simp add: s)
    show "\<forall>v \<in> set ys. variant_product_id v \<in> product_id ` set prods"
    proof (rule for_range_all [OF _ loop])
      fix k t zs t'
      assume "newVariant E sc p t \<bind> (\<lambda>(v, c'). Some ([v], c')) = Some (zs, t')"
      then obtain v where "newVariant E sc p t = Some (v, t')" "zs = [v]"
        by (rule variant_singleton)
      then show "\<forall>v \<in> set zs. variant_product_id v \<in> product_id ` set prods"
        using newVariant_fields p by auto
    qed
  qed
  show "length vars = length prods * variantsPerProduct sc"
  proof (rule for_each_length [OF _ run])
    fix p s ys s'
    assume inner: "(case s of (r, i) \<Rightarrow>
          for_range 0 (variantsPerProduct sc) (\<lambda>_ c. do {
            (v, c') \<leftarrow> newVariant E sc p c;
            Some ([v], c')
          }) (unusedDraws 1 r, i)) = Some (ys, s')"
    obtain r i where s: "s = (r, i)"
      by (cases s)
    have loop: "for_range 0 (variantsPerProduct sc) (\<lambda>_ c. do {
            (v, c') \<leftarrow> newVariant E sc p c;
            Some ([v], c')
          }) (unusedDraws 1 r, i) = Some (ys, s')"
      using inner by (simp add: s)
    have "length ys = variantsPerProduct sc * 1"
      by (rule for_range_length [OF _ loop]) (auto elim: variant_singleton)
    then show "length ys = variantsPerProduct sc"
      by simp
  qed
qed

section \<open>Posts\<close>

lemma newPost_fields:
  assumes "newPost E sc ws acct prods (r, i) = Some (p, (r', i'))"
  shows "post_id p = uuidv4 E i" and "post_workspace_id p = workspace_id ws" and "i' = i + 1"
  using assms
  by (auto simp: newPost_def Let_def generateId_def split: prod.splits Option.bind_splits if_splits)

lemma generateSocialPosts_loop:
  assumes "generateSocialPosts E sc wss accts wprods wposts0 c = Some (posts, wposts, c')"
  obtains "for_each wss (\<lambda>ws.
         let acct = List.find (\<lambda>a. account_workspace_id a = workspace_id ws) accts;
             prods = wprods (workspace_id ws)
         in for_range 0 (postsPerWorkspace sc) (\<lambda>_ (c, wp). do {
              (p, c') \<leftarrow> newPost E sc ws acct prods c;
              wp' \<leftarrow> lookup_push wp (workspace_id ws) p;
              Some ([p], (c', wp'))
            })) (c, wposts0) = Some (posts, (c', wposts))"
  using assms by (auto simp: generateSocialPosts_def split: Option.bind_splits)

lemma generateSocialPosts_rel:
  assumes step: "\<And>ws acct prods r i p r' i'. ws \<in> set wss \<Longrightarrow>
        newPost E sc ws acct prods (r, i) = Some (p, (r', i')) \<Longrightarrow> R i [p] i'"
    and refl: "\<And>i. R i [] i"
    and trans: "\<And>i ys i1 zs i2. R i ys i1 \<Longrightarrow> R i1 zs i2 \<Longrightarrow> R i (ys @ zs) i2"
    and run: "generateSocialPosts E sc wss accts wprods wposts0 c = Some (posts, wposts, c')"
  shows "R (snd c) posts (snd c')"
proof -
  let ?R = "\<lambda>(s :: cursor \<times> social_post lookup) out (s' :: cursor \<times> social_post lookup).
              R (snd (fst s)) out (snd (fst s'))"
  have r: "?R s [] s" for s
    by (simp add: refl)
  have t: "?R s (ys @ zs) s2" if "?R s ys s1" "?R s1 zs s2" for s s1 s2 ys zs
    using that trans by blast
  from run have loop: "for_each wss (\<lambda>ws.
         let acct = List.find (\<lambda>a. account_workspace_id a = workspace_id ws) accts;
             prods = wprods (workspace_id ws)
         in for_range 0 (postsPerWorkspace sc) (\<lambda>_ (c, wp). do {
              (p, c') \<leftarrow> newPost E sc ws acct prods c;
              wp' \<leftarrow> lookup_push wp (workspace_id ws) p;
              Some ([p], (c', wp'))
            })) (c, wposts0) = Some (posts, (c', wposts))"
    by (rule generateSocialPosts_loop)
  have "?R (c, wposts0) posts (c', wposts)"
  proof (rule for_each_rel [where R = ?R, OF _ r t loop])
    fix ws s ys s'
    assume ws: "ws \<in> set wss"
      and inner: "(let acct = List.find (\<lambda>a. account_workspace_id a = workspace_id ws) accts;
             prods = wprods (workspace_id ws)
         in for_range 0 (postsPerWorkspace sc) (\<lambda>_ (c, wp). do {
              (p, c') \<leftarrow> newPost E sc ws acct prods c;
              wp' \<leftarrow> lookup_push wp (workspace_id ws) p;
              Some ([p], (c', wp'))
            })) s = Some (ys, s')"
    show "?R s ys s'"
    proof (rule for_range_rel [where R = ?R, OF _ r t inner [unfolded Let_def]])
      fix k u zs u'
      assume b: "(case u of (c, wp) \<Rightarrow> do {
              (p, c') \<leftarrow> newPost E sc ws
                 (List.find (\<lambda>a. account_workspace_id a = workspace_id ws) accts)
                 (wprods (workspace_id ws)) c;
              wp' \<leftarrow> lookup_push wp (workspace_id ws) p;
              Some ([p], (c', wp'))
            }) = Some (zs, u')"
      obtain a i m where u: "u = ((a, i), m)"
        by (cases u) auto
      from b obtain p a' i' m' where
        n: "newPost E sc ws (List.find (\<lambda>a. account_workspace_id a = workspace_id ws) accts)
              (wprods (workspace_id ws)) (a, i) = Some (p, (a', i'))"
        and zs: "zs = [p]" and u': "u' = ((a', i'), m')"
        by (auto simp: u split: Option.bind_splits)
      show "?R u zs u'"
        using step [OF ws n] by (simp add: u u' zs)
    qed
  qed
  then show ?thesis
    by simp
qed

lemma generateSocialPosts_facts:
  assumes "generateSocialPosts E sc wss accts wprods wposts0 c = Some (posts, wposts, c')"
  shows "fresh_ids E post_id (snd c) posts (snd c')"
    and "\<forall>p \<in> set posts. post_workspace_id p \<in> workspace_id ` set wss"
    and "length posts = length wss * postsPerWorkspace sc"
proof -
  show "fresh_ids E post_id (snd c) posts (snd c')"
    by (rule generateSocialPosts_rel [OF _ fresh_ids_refl fresh_ids_trans assms])
       (auto dest: newPost_fields intro!: fresh_ids_single)
  show "\<forall>p \<in> set posts. post_workspace_id p \<in> workspace_id ` set wss"
    by (rule generateSocialPosts_rel [where R = "\<lambda>_ ps _. \<forall>p \<in> set ps. post_workspace_id p \<in> workspace_id ` set wss",
          OF _ _ _ assms])
       (auto dest: newPost_fields)
  from assms have loop: "for_each wss (\<lambda>ws.
         let acct = List.find (\<lambda>a. account_workspace_id a = workspace_id ws) accts;
             prods = wprods (workspace_id ws)
         in for_range 0 (postsPerWorkspace sc) (\<lambda>_ (c, wp). do {
              (p, c') \<leftarrow> newPost E sc ws acct prods c;
              wp' \<leftarrow> lookup_push wp (workspace_id ws) p;
              Some ([p], (c', wp'))
            })) (c, wposts0) = Some (posts, (c', wposts))"
    by (rule generateSocialPosts_loop)
  show "length posts = length wss * postsPerWorkspace sc"
  proof (rule for_each_length [OF _ loop])
    fix ws s ys s'
    assume inner: "(let acct = List.find (\<lambda>a. account_workspace_id a = workspace_id ws) accts;
             prods = wprods (workspace_id ws)
         in for_range 0 (postsPerWorkspace sc) (\<lambda>_ (c, wp). do {
              (p, c') \<leftarrow> newPost E sc ws acct prods c;
              wp' \<leftarrow> lookup_push wp (workspace_id ws) p;
              Some ([p], (c', wp'))
            })) s = Some (ys, s')"
    have "length ys = postsPerWorkspace sc * 1"
      by (rule for_range_length [OF _ inner [unfolded Let_def]])
         (auto split: Option.bind_splits prod.splits)
    then show "length ys = postsPerWorkspace sc"
      by simp
  qed
qed

section \<open>Conversations and orders\<close>

lemma generateConversations_length:
  assumes "generateConversations E sc wss accts prods binds c = Some (cs, cc, c')"
  shows "length cs = length wss * conversationsPerWorkspace sc"
proof -
  from assms obtain c1 where
    loop: "for_each wss (\<lambda>ws.
         let acct = List.find (\<lambda>a. account_workspace_id a = workspace_id ws) accts;
             bindings = filter (\<lambda>b. binding_workspace_id b = workspace_id ws) binds
         in for_range 0 (conversationsPerWorkspace sc) (\<lambda>_ c. do {
              (cv, c') \<leftarrow> newConversation E sc ws acct prods bindings c;
              Some ([cv], c')
            })) c = Some (cs, c1)"
    by (auto simp: generateConversations_def split: Option.bind_splits)
  show ?thesis
  proof (rule for_each_length [OF _ loop])
    fix ws s ys s'
    assume inner: "(let acct = List.find (\<lambda>a. account_workspace_id a = workspace_id ws) accts;
             bindings = filter (\<lambda>b. binding_workspace_id b = workspace_id ws) binds
         in for_range 0 (conversationsPerWorkspace sc) (\<lambda>_ c. do {
              (cv, c') \<leftarrow> newConversation E sc ws acct prods bindings c;
              Some ([cv], c')
            })) s = Some (ys, s')"
    have "length ys = conversationsPerWorkspace sc * 1"
      by (rule for_range_length [OF _ inner [unfolded Let_def]])
         (auto split: Option.bind_splits prod.splits)
    then show "length ys = conversationsPerWorkspace sc"
      by simp
  qed
qed

lemma newOrder_fields:
  assumes "newOrder E sc ws acct prods convs binds k c = Some (ord, c')"
  shows "order_workspace_id ord = workspace_id ws"
  using assms
  by (cases c)
     (auto simp: newOrder_def Let_def generateId_def split: prod.splits Option.bind_splits if_splits)

lemma order_singleton:
  assumes "newOrder E sc ws acct prods convs binds k c \<bind> (\<lambda>(ord, c'). Some ([ord], c')) = Some (ys, s')"
  obtains ord where "newOrder E sc ws acct prods convs binds k c = Some (ord, s')" "ys = [ord]"
  using assms by (auto split: Option.bind_splits)

lemma generateOrders_facts:
  assumes "generateOrders E sc wss accts wprods convs binds c = Some (ords, c')"
  shows "\<forall>ord \<in> set ords. order_workspace_id ord \<in> workspace_id ` set wss"
    and "length ords = length wss * ordersPerWorkspace sc"
proof -
  note run = assms [unfolded generateOrders_def]
  show "\<forall>ord \<in> set ords. order_workspace_id ord \<in> workspace_id ` set wss"
  proof (rule for_each_all [OF _ run])
    fix ws s ys s'
    assume ws: "ws \<in> set wss"
      and inner: "(let acct = List.find (\<lambda>a. account_workspace_id a = workspace_id ws) accts;
           prods = wprods (workspace_id ws);
           convs = filter (\<lambda>cv. conversation_workspace_id cv = workspace_id ws
                                \<and> resulted_in_purchase cv) convs
       in for_range 0 (ordersPerWorkspace sc) (\<lambda>k c. do {
            (ord, c') \<leftarrow> newOrder E sc ws acct prods convs binds k c;
            Some ([ord], c')
          })) s = Some (ys, s')"
    show "\<forall>ord \<in> set ys. order_workspace_id ord \<in> workspace_id ` set wss"
    proof (rule for_range_all [OF _ inner [unfolded Let_def]])
      fix k t zs t'
      assume "newOrder E sc ws (List.find (\<lambda>a. account_workspace_id a = workspace_id ws) accts)
                (wprods (workspace_id ws))
                (filter (\<lambda>cv. conversation_workspace_id cv = workspace_id ws \<and> resulted_in_purchase cv) convs)
                binds k t \<bind> (\<lambda>(ord, c'). Some ([ord], c')) = Some (zs, t')"
      then obtain ord where "newOrder E sc ws (List.find (\<lambda>a. account_workspace_id a = workspace_id ws) accts)
                (wprods (workspace_id ws))
                (filter (\<lambda>cv. conversation_workspace_id cv = workspace_id ws \<and> resulted_in_purchase cv) convs)
                binds k t = Some (ord, t')" "zs = [ord]"
        by (rule order_singleton)
      then show "\<forall>ord \<in> set zs. order_workspace_id ord \<in> workspace_id ` set wss"
        using newOrder_fields ws by auto
    qed
  qed
  show "length ords = length wss * ordersPerWorkspace sc"
  proof (rule for_each_length [OF _ run])
    fix ws s ys s'
    assume inner: "(let acct = List.find (\<lambda>a. account_workspace_id a = workspace_id ws) accts;
           prods = wprods (workspace_id ws);
           convs = filter (\<lambda>cv. conversation_workspace_id cv = workspace_id ws
                                \<and> resulted_in_purchase cv) convs
       in for_range 0 (ordersPerWorkspace sc) (\<lambda>k c. do {
            (ord, c') \<leftarrow> newOrder E sc ws acct prods convs binds k c;
            Some ([ord], c')
          })) s = Some (ys, s')"
    have "length ys = ordersPerWorkspace sc * 1"
      by (rule for_range_length [OF _ inner [unfolded Let_def]]) (auto elim: order_singleton)
    then show "length ys = ordersPerWorkspace sc"
      by simp
  qed
qed

section \<open>Journeys and forecasts\<close>

lemma generateCustomerJourneys_workspace:
  assumes "unit_interval E"
    and "generateCustomerJourneys E sc wss wposts wprods convs c = Some (js, c')"
  shows "\<forall>j \<in> set js. journey_workspace_id j \<in> workspace_id ` set wss"
  by (rule generateCustomerJourneys_rel [where R = "\<lambda>_ evs _. \<forall>j \<in> set evs. journey_workspace_id j \<in> workspace_id ` set wss",
        OF _ _ _ assms(2)])
     (auto dest: newSession_block(2) [OF assms(1)])

lemma generateDemandForecasts_length:
  assumes "generateDemandForecasts E prods c = Some (fs, c')"
  shows "length fs = min 50 (length prods) * 3"
proof -
  have "length fs = length (take 50 prods) * 3"
  proof (rule for_each_length [OF _ assms [unfolded generateDemandForecasts_def]])
    fix p s ys s'
    assume inner: "for_each [7, 14, 30] (\<lambda>horizon c.
         let (f, c') = newForecast E p horizon c in Some ([f], c')) s = Some (ys, s')"
    have "length ys = length [7, 14, 30 :: int] * 1"
      by (rule for_each_length [OF _ inner]) (auto split: prod.splits)
    then show "length ys = 3"
      by simp
  qed
  then show ?thesis
    by (simp add: min.commute)
qed

section \<open>Post metrics and bindings\<close>

lemma generateEngagementMetrics_impressions:
  assumes "unit_interval E" "0 \<le> reach0"
  shows "0 \<le> impressions (fst (generateEngagementMetrics E reach0 r))"
proof -
  define f1 where "f1 = fst (randomFloat E 1.2 2.5 r)"
  have "to_double 1.2 \<le> f1"
    unfolding f1_def using assms(1) by (rule randomFloat_lower) simp
  moreover have "0 \<le> to_double 1.2"
    by (rule to_double_nonneg) simp
  ultimately have "0 \<le> real_of_int reach0 * f1"
    using assms(2) by simp
  then have "0 \<le> Math_round (to_double (real_of_int reach0 * f1))"
    by (intro Math_round_nonneg to_double_nonneg)
  moreover have "impressions (fst (generateEngagementMetrics E reach0 r))
      = Math_round (to_double (real_of_int reach0 * f1))"
    by (simp add: generateEngagementMetrics_def f1_def Let_def case_prod_beta)
  ultimately show ?thesis
    by simp
qed

lemma newPostMetric_impressions:
  assumes "unit_interval E" "newPostMetric E post day c = Some (m, c')"
  shows "0 \<le> impressions m"
proof -
  obtain r i where c: "c = (r, i)"
    by (cases c)
  define decay where "decay = to_double (exp (to_double (- real day * to_double 0.1)))"
  define n where "n = fst (randomInt E 100 10000 r)"
  define r1 where "r1 = snd (randomInt E 100 10000 r)"
  define reach0 where "reach0 = Math_round (to_double (real_of_int n * decay))"
  have "100 \<le> n"
    using randomInt_range [OF assms(1), of 100 10000 r] by (simp add: n_def)
  moreover have "0 \<le> decay"
    unfolding decay_def by (intro to_double_nonneg) simp
  ultimately have "0 \<le> real_of_int n * decay"
    by simp
  then have reach: "0 \<le> reach0"
    unfolding reach0_def by (intro Math_round_nonneg to_double_nonneg)
  have "0 \<le> impressions (fst (generateEngagementMetrics E reach0 r1))"
    using assms(1) reach by (rule generateEngagementMetrics_impressions)
  moreover have "impressions m = impressions (fst (generateEngagementMetrics E reach0 r1))"
    using assms(2)
    by (auto simp: newPostMetric_def c Let_def case_prod_beta generateId_def engagementMetrics.defs
        reach0_def n_def r1_def decay_def split: Option.bind_splits)
  ultimately show ?thesis
    by simp
qed

lemma generatePostMetrics_impressions:
  assumes "unit_interval E" "generatePostMetrics E posts c = Some (metrics, c')"
  shows "\<forall>m \<in> set metrics. 0 \<le> impressions m"
proof (rule for_each_all [OF _ assms(2) [unfolded generatePostMetrics_def]])
  fix post s ys s'
  assume inner: "(let daysSincePost = (now E - posted_at post) div 86400000;
           metricsToGenerate = min daysSincePost 30
       in for_range 0 (nat metricsToGenerate) (\<lambda>day c. do {
            (m, c') \<leftarrow> newPostMetric E post day c;
            Some ([m], c')
          })) s = Some (ys, s')"
  show "\<forall>m \<in> set ys. 0 \<le> impressions m"
  proof (rule for_range_all [OF _ inner [unfolded Let_def]])
    fix day t zs t'
    assume "newPostMetric E post day t \<bind> (\<lambda>(m, c'). Some ([m], c')) = Some (zs, t')"
    then obtain m where "newPostMetric E post day t = Some (m, t')" "zs = [m]"
      by (auto split: Option.bind_splits)
    then show "\<forall>m \<in> set zs. 0 \<le> impressions m"
      using newPostMetric_impressions [OF assms(1)] by auto
  qed
qed

lemma foldl_impressions_nonneg:
  assumes "\<forall>m \<in> set ms. 0 \<le> impressions m" "0 \<le> a"
  shows "0 \<le> foldl (\<lambda>sum m. to_double (sum + real_of_int (impressions m))) a ms"
  using assms
proof (induction ms arbitrary: a)
  case Nil
  then show ?case
    by simp
next
  case (Cons m ms)
  have "0 \<le> to_double (a + real_of_int (impressions m))"
    using Cons.prems by (intro to_double_nonneg) simp
  then show ?case
    using Cons.IH [of "to_double (a + real_of_int (impressions m))"] Cons.prems(1) by simp
qed

lemma CONFIG_funnelRates_within_unit: "rates_within_unit CONFIG_funnelRates"
  by (simp add: rates_within_unit_def within_unit_def CONFIG_funnelRates_def)

lemma funnel_chain_extend: "funnel_chain (funnelMetrics.extend m ext) = funnel_chain m"
  by (simp add: funnel_chain_def funnelMetrics.defs)

lemma newBinding_fields:
  assumes "newBinding E prods metrics post c = (bs, c')"
  shows "\<forall>b \<in> set bs. binding_post_id b = post_id post \<and> binding_product_id b \<in> product_id ` set prods"
    and "unit_interval E \<Longrightarrow> \<forall>m \<in> set metrics. 0 \<le> impressions m \<Longrightarrow> \<forall>b \<in> set bs. funnel_chain b"
proof -
  obtain r i where c: "c = (r, i)"
    by (cases c)
  show "\<forall>b \<in> set bs. binding_post_id b = post_id post \<and> binding_product_id b \<in> product_id ` set prods"
    using assms
    by (auto simp: newBinding_def c Let_def generateId_def funnelMetrics.defs find_Some_iff
        split: option.splits prod.splits if_splits)
  assume u: "unit_interval E" and nn: "\<forall>m \<in> set metrics. 0 \<le> impressions m"
  show "\<forall>b \<in> set bs. funnel_chain b"
  proof (cases "post_product_id post")
    case None
    then show ?thesis
      using assms by (simp add: newBinding_def c)
  next
    case (Some pid)
    show ?thesis
    proof (cases "List.find (\<lambda>p. product_id p = pid) prods")
      case None
      then show ?thesis
        using assms Some by (simp add: newBinding_def c)
    next
      case (Some p)
      define total where "total = foldl (\<lambda>sum m. to_double (sum + real_of_int (impressions m))) 0
                      (filter (\<lambda>m. metric_post_id m = post_id post) metrics)"
      define f where "f = fst (randomFloat E 0.001 0.01 r)"
      define r1 where "r1 = snd (randomFloat E 0.001 0.01 r)"
      define T where "T = Math_round (to_double (total * f))"
      have "0 \<le> total"
        unfolding total_def using nn by (intro foldl_impressions_nonneg) auto
      moreover have "to_double 0.001 \<le> f"
        unfolding f_def using u by (rule randomFloat_lower) simp
      moreover have "0 \<le> to_double 0.001"
        by (rule to_double_nonneg) simp
      ultimately have "0 \<le> total * f"
        by simp
      then have t: "0 \<le> T"
        unfolding T_def by (intro Math_round_nonneg to_double_nonneg)
      have td: "to_double (real_of_int T) = real_of_int T"
        unfolding T_def by (rule Math_round_double) simp
      have ch: "funnel_chain (fst (generateFunnelMetrics E T CONFIG_funnelRates r1))"
        using u CONFIG_funnelRates_within_unit t td by (rule generateFunnelMetrics_chain)
      have "\<exists>ext. bs = [funnelMetrics.extend
                           (fst (generateFunnelMetrics E T CONFIG_funnelRates r1)) ext]"
        using assms \<open>post_product_id post = Some pid\<close> Some
        by (auto simp: newBinding_def c Let_def case_prod_beta generateId_def
            T_def total_def f_def r1_def)
      then show ?thesis
        using ch by (auto simp: funnel_chain_extend)
    qed
  qed
qed

lemma generateGarmentBindings_facts:
  assumes "generateGarmentBindings E prods posts metrics c = Some (binds, c')"
  shows "\<forall>b \<in> set binds. binding_post_id b \<in> post_id ` set posts
           \<and> binding_product_id b \<in> product_id ` set prods"
    and "unit_interval E \<Longrightarrow> \<forall>m \<in> set metrics. 0 \<le> impressions m \<Longrightarrow> \<forall>b \<in> set binds. funnel_chain b"
proof -
  note run = assms [unfolded generateGarmentBindings_def]
  show "\<forall>b \<in> set binds. binding_post_id b \<in> post_id ` set posts
           \<and> binding_product_id b \<in> product_id ` set prods"
  proof (rule for_each_all [OF _ run])
    fix post s ys s'
    assume p: "post \<in> set posts" and b: "Some (newBinding E prods metrics post s) = Some (ys, s')"
    then have "newBinding E prods metrics post s = (ys, s')"
      by simp
    from newBinding_fields(1) [OF this] p
    show "\<forall>b \<in> set ys. binding_post_id b \<in> post_id ` set posts
           \<and> binding_product_id b \<in> product_id ` set prods"
      by auto
  qed
  assume u: "unit_interval E" and nn: "\<forall>m \<in> set metrics. 0 \<le> impressions m"
  show "\<forall>b \<in> set binds. funnel_chain b"
  proof (rule for_each_all [OF _ run])
    fix post s ys s'
    assume "Some (newBinding E prods metrics post s) = Some (ys, s')"
    then have "newBinding E prods metrics post s = (ys, s')"
      by simp
    from newBinding_fields(2) [OF this u nn]
    show "\<forall>b \<in> set ys. funnel_chain b" .
  qed
qed

section \<open>The stages of a run\<close>

lemma generate_stages:
  assumes "generate E sc = Some d"
  obtains wss accts wp0 wposts0 c1 prods wprods c2 vars c3 hist c4 posts wposts c5
    metrics c6 binds c7 convs cc c8 ords c9 journeys c10 aggs c11 profiles c12 forecasts c13
  where "generateWorkspaces E sc (0, 0) = Some (wss, accts, wp0, wposts0, c1)"
    and "generateProducts E sc wss accts wp0 c1 = Some (prods, wprods, c2)"
    and "generateProductVariants E sc prods c2 = Some (vars, c3)"
    and "generateInventoryHistory E sc vars c3 = Some (hist, c4)"
    and "generateSocialPosts E sc wss accts wprods wposts0 c4 = Some (posts, wposts, c5)"
    and "generatePostMetrics E posts c5 = Some (metrics, c6)"
    and "generateGarmentBindings E prods posts metrics c6 = Some (binds, c7)"
    and "generateConversations E sc wss accts prods binds c7 = Some (convs, cc, c8)"
    and "generateOrders E sc wss accts wprods convs binds c8 = Some (ords, c9)"
    and "generateCustomerJourneys E sc wss wposts wprods convs c9 = Some (journeys, c10)"
    and "generateDailyAggregates E sc wss wprods c10 = Some (aggs, c11)"
    and "generateCustomerProfiles E wss cc c11 = Some (profiles, c12)"
    and "generateDemandForecasts E prods c12 = Some (forecasts, c13)"
    and "d = \<lparr>workspaces = wss, accounts = accts, products = prods, product_variants = vars,
           inventory_history = hist, social_posts = posts, post_metrics = metrics,
           garment_bindings = binds, conversations = convs, orders = ords,
           customer_journeys = journeys, daily_aggregates = aggs,
           customer_profiles = profiles, demand_forecasts = forecasts\<rparr>"
  using assms unfolding generate_def
  by (auto split: Option.bind_splits)

lemma generate_scale_cardinalities:
  assumes "generate E sc = Some d"
  shows "scale_cardinalities d = expected_cardinalities sc"
proof -
  from assms obtain wss accts wp0 wposts0 c1 prods wprods c2 vars c3 hist c4 posts wposts c5
    metrics c6 binds c7 convs cc c8 ords c9 journeys c10 aggs c11 profiles c12 forecasts c13
    where ws: "generateWorkspaces E sc (0, 0) = Some (wss, accts, wp0, wposts0, c1)"
      and ps: "generateProducts E sc wss accts wp0 c1 = Some (prods, wprods, c2)"
      and vs: "generateProductVariants E sc prods c2 = Some (vars, c3)"
      and "generateInventoryHistory E sc vars c3 = Some (hist, c4)"
      and po: "generateSocialPosts E sc wss accts wprods wposts0 c4 = Some (posts, wposts, c5)"
      and "generatePostMetrics E posts c5 = Some (metrics, c6)"
      and "generateGarmentBindings E prods posts metrics c6 = Some (binds, c7)"
      and cv: "generateConversations E sc wss accts prods binds c7 = Some (convs, cc, c8)"
      and os: "generateOrders E sc wss accts wprods convs binds c8 = Some (ords, c9)"
      and "generateCustomerJourneys E sc wss wposts wprods convs c9 = Some (journeys, c10)"
      and "generateDailyAggregates E sc wss wprods c10 = Some (aggs, c11)"
      and "generateCustomerProfiles E wss cc c11 = Some (profiles, c12)"
      and fs: "generateDemandForecasts E prods c12 = Some (forecasts, c13)"
      and d: "d = \<lparr>workspaces = wss, accounts = accts, products = prods, product_variants = vars,
           inventory_history = hist, social_posts = posts, post_metrics = metrics,
           garment_bindings = binds, conversations = convs, orders = ords,
           customer_journeys = journeys, daily_aggregates = aggs,
           customer_profiles = profiles, demand_forecasts = forecasts\<rparr>"
    by (rule generate_stages)
  have "length wss = scale_workspaces sc" "length accts = scale_workspaces sc"
    using generateWorkspaces_fresh(2,3) [OF ws] by simp_all
  moreover have "length prods = length wss * productsPerWorkspace sc"
    using ps by (rule generateProducts_length)
  moreover have "length vars = length prods * variantsPerProduct sc"
    using vs by (rule generateProductVariants_facts(2))
  moreover have "length posts = length wss * postsPerWorkspace sc"
    using po by (rule generateSocialPosts_facts(3))
  moreover have "length convs = length wss * conversationsPerWorkspace sc"
    using cv by (rule generateConversations_length)
  moreover have "length ords = length wss * ordersPerWorkspace sc"
    using os by (rule generateOrders_facts(2))
  moreover have "length forecasts = min 50 (length prods) * 3"
    using fs by (rule generateDemandForecasts_length)
  ultimately show ?thesis
    by (simp add: scale_cardinalities_def expected_cardinalities_def d)
qed

lemma generate_bindings_chain:
  assumes u: "unit_interval E" and run: "generate E sc = Some d"
  shows "\<forall>b \<in> set (garment_bindings d). funnel_chain b"
proof -
  from run obtain wss accts wp0 wposts0 c1 prods wprods c2 vars c3 hist c4 posts wposts c5
    metrics c6 binds c7 convs cc c8 ords c9 journeys c10 aggs c11 profiles c12 forecasts c13
    where "generateWorkspaces E sc (0, 0) = Some (wss, accts, wp0, wposts0, c1)"
      and "generateProducts E sc wss accts wp0 c1 = Some (prods, wprods, c2)"
      and "generateProductVariants E sc prods c2 = Some (vars, c3)"
      and "generateInventoryHistory E sc vars c3 = Some (hist, c4)"
      and "generateSocialPosts E sc wss accts wprods wposts0 c4 = Some (posts, wposts, c5)"
      and ms: "generatePostMetrics E posts c5 = Some (metrics, c6)"
      and bs: "generateGarmentBindings E prods posts metrics c6 = Some (binds, c7)"
      and "generateConversations E sc wss accts prods binds c7 = Some (convs, cc, c8)"
      and "generateOrders E sc wss accts wprods convs binds c8 = Some (ords, c9)"
      and "generateCustomerJourneys E sc wss wposts wprods convs c9 = Some (journeys, c10)"
      and "generateDailyAggregates E sc wss wprods c10 = Some (aggs, c11)"
      and "generateCustomerProfiles E wss cc c11 = Some (profiles, c12)"
      and "generateDemandForecasts E prods c12 = Some (forecasts, c13)"
      and d: "d = \<lparr>workspaces = wss, accounts = accts, products = prods, product_variants = vars,
           inventory_history = hist, social_posts = posts, post_metrics = metrics,
           garment_bindings = binds, conversations = convs, orders = ords,
           customer_journeys = journeys, daily_aggregates = aggs,
           customer_profiles = profiles, demand_forecasts = forecasts\<rparr>"
    by (rule generate_stages)
  have "\<forall>m \<in> set metrics. 0 \<le> impressions m"
    using u ms by (rule generatePostMetrics_impressions)
  with bs u have "\<forall>b \<in> set binds. funnel_chain b"
    by (rule generateGarmentBindings_facts(2))
  then show ?thesis
    by (simp add: d)
qed

section \<open>Sample runs of the pipeline\<close>

text \<open>
  The runs below evaluate \<open>generate\<close> on hosts whose random stream is constant; the
  definitions are unfolded call by value.
\<close>

lemmas pipeline_defs = generate_def
  generateWorkspaces_def newWorkspace_def
  generateProducts_def newProduct_def getWeightedCategory_def CONFIG_categories_def
  generatePrice_def CONFIG_inventory_initialStock_def lookup_push_def
  generateProductVariants_def newVariant_def getWeightedSize_def CONFIG_sizes_def
  CONFIG_inventory_sizeDistribution_def generateSKU_def
  generateInventoryHistory_def inventoryChange_def changeSources_def drawChangeAmount_def
  generateSocialPosts_def newPost_def
  generatePostMetrics_def newPostMetric_def generateEngagementMetrics_def roundTo4_def
  getWeightedHour_def toFixed2_def toFixed_def percentOf_def js_div_def to_number_def
  generateGarmentBindings_def newBinding_def generateFunnelMetrics_def stageCount_def
  calculateConversionRate_def CONFIG_funnelRates_def funnelMetrics.defs engagementMetrics.defs
  generateConversations_def newConversation_def trackConversation_def tryonStates_def
  CONFIG_conversationStates_def
  generateOrders_def newOrder_def
  generateDailyAggregates_def newDailyAggregates_def
  generateCustomerProfiles_def newProfile_def deriveSegment_def totalPurchasesOf_def
  totalRevenueOf_def totalTryonsOf_def daysSinceLastSeenOf_def
  generateDemandForecasts_def newForecast_def getWeightedDevice_def getWeightedDayOfWeek_def

lemma constant_host_contract:
  assumes "0 \<le> u" "u < 1"
  shows "unit_interval (constant_host u)" and "inj (uuidv4 (constant_host u))"
  using assms by (simp_all add: unit_interval_def constant_host_def utc_host_def)

lemma run_two_workspaces:
  "\<exists>d. generate (constant_host 0) two_workspaces = Some d
     \<and> map workspace_id (workspaces d) = [0, 2]
     \<and> map product_id (products d) = [4, 5]
     \<and> map product_workspace_id (products d) = [0, 2]
     \<and> map variant_product_id (product_variants d) = [4, 5]
     \<and> map post_id (social_posts d) = [8, 9]
     \<and> map post_workspace_id (social_posts d) = [0, 2]
     \<and> map binding_post_id (garment_bindings d) = [8, 9]
     \<and> map binding_product_id (garment_bindings d) = [4, 5]
     \<and> map order_workspace_id (orders d) = [0, 2]
     \<and> map journey_workspace_id (customer_journeys d) = [0, 2]"
  by (simp add: pipeline_defs journey_defs month_defs tiny_def two_workspaces_def sampling_defs
      for_range_numeral cong: by_value)

lemma run_two_days:
  "\<exists>d. generate (constant_host 0.5) two_days = Some d
     \<and> map impressions (post_metrics d) = [9343]
     \<and> map total_triggers (garment_bindings d) = [51]
     \<and> map total_dm_conversations (garment_bindings d) = [3]
     \<and> map total_photo_requests (garment_bindings d) = [2]
     \<and> map total_photos_received (garment_bindings d) = [1]
     \<and> map successful_generations (garment_bindings d) = [1]
     \<and> map total_purchases (garment_bindings d) = [0]"
  by (simp add: pipeline_defs journey_defs month_defs tiny_def two_days_def sampling_defs
      for_range_numeral cong: by_value)

lemma run_tiny_low:
  "map_option cardinalities (generate (constant_host 0) tiny)
     = Some [1, 1, 1, 1, 0, 1, 1, 1, 1, 1, 1, 2, 1, 3]"
  by (simp add: cardinalities_def pipeline_defs journey_defs month_defs tiny_def sampling_defs
      for_range_numeral cong: by_value)

lemma run_tiny_high:
  "map_option cardinalities (generate (constant_host 0.99) tiny)
     = Some [1, 1, 1, 1, 1, 1, 0, 0, 1, 1, 2, 1, 1, 3]"
  by (simp add: cardinalities_def pipeline_defs journey_defs month_defs tiny_def sampling_defs
      for_range_numeral cong: by_value)

section \<open>Referential integrity\<close>

text \<open>
  C1. On a host whose uuids are pairwise distinct and whose random numbers lie in \<open>[0, 1)\<close>,
  every foreign key of the collections returned by \<open>generate\<close> matches exactly one record
  of the parent collection: product to workspace, variant to product, post to workspace,
  binding to post and to product, order to workspace, journey event to workspace.
\<close>

theorem generate_referential_integrity:
  assumes inj: "inj (uuidv4 E)" and u: "unit_interval E" and run: "generate E sc = Some d"
  shows "referential_integrity d"
proof -
  from run obtain wss accts wp0 wposts0 c1 prods wprods c2 vars c3 hist c4 posts wposts c5
    metrics c6 binds c7 convs cc c8 ords c9 journeys c10 aggs c11 profiles c12 forecasts c13
    where ws: "generateWorkspaces E sc (0, 0) = Some (wss, accts, wp0, wposts0, c1)"
      and ps: "generateProducts E sc wss accts wp0 c1 = Some (prods, wprods, c2)"
      and vs: "generateProductVariants E sc prods c2 = Some (vars, c3)"
      and "generateInventoryHistory E sc vars c3 = Some (hist, c4)"
      and po: "generateSocialPosts E sc wss accts wprods wposts0 c4 = Some (posts, wposts, c5)"
      and "generatePostMetrics E posts c5 = Some (metrics, c6)"
      and bs: "generateGarmentBindings E prods posts metrics c6 = Some (binds, c7)"
      and "generateConversations E sc wss accts prods binds c7 = Some (convs, cc, c8)"
      and os: "generateOrders E sc wss accts wprods convs binds c8 = Some (ords, c9)"
      and js: "generateCustomerJourneys E sc wss wposts wprods convs c9 = Some (journeys, c10)"
      and "generateDailyAggregates E sc wss wprods c10 = Some (aggs, c11)"
      and "generateCustomerProfiles E wss cc c11 = Some (profiles, c12)"
      and "generateDemandForecasts E prods c12 = Some (forecasts, c13)"
      and d: "d = \<lparr>workspaces = wss, accounts = accts, products = prods, product_variants = vars,
           inventory_history = hist, social_posts = posts, post_metrics = metrics,
           garment_bindings = binds, conversations = convs, orders = ords,
           customer_journeys = journeys, daily_aggregates = aggs,
           customer_profiles = profiles, demand_forecasts = forecasts\<rparr>"
    by (rule generate_stages)
  have dw: "distinct (map workspace_id wss)"
    using inj generateWorkspaces_fresh(1) [OF ws] by (rule fresh_ids_distinct)
  have dp: "distinct (map product_id prods)"
    using inj generateProducts_facts(1) [OF ps] by (rule fresh_ids_distinct)
  have dq: "distinct (map post_id posts)"
    using inj generateSocialPosts_facts(1) [OF po] by (rule fresh_ids_distinct)
  have "\<forall>p \<in> set prods. resolves_once workspace_id wss (product_workspace_id p)"
    using generateProducts_facts(2) [OF ps] dw by (auto intro: resolves_onceI)
  moreover have "\<forall>v \<in> set vars. resolves_once product_id prods (variant_product_id v)"
    using generateProductVariants_facts(1) [OF vs] dp by (auto intro: resolves_onceI)
  moreover have "\<forall>p \<in> set posts. resolves_once workspace_id wss (post_workspace_id p)"
    using generateSocialPosts_facts(2) [OF po] dw by (auto intro: resolves_onceI)
  moreover have "\<forall>b \<in> set binds. resolves_once post_id posts (binding_post_id b)
      \<and> resolves_once product_id prods (binding_product_id b)"
    using generateGarmentBindings_facts(1) [OF bs] dp dq by (auto intro: resolves_onceI)
  moreover have "\<forall>ord \<in> set ords. resolves_once workspace_id wss (order_workspace_id ord)"
    using generateOrders_facts(1) [OF os] dw by (auto intro: resolves_onceI)
  moreover have "\<forall>j \<in> set journeys. resolves_once workspace_id wss (journey_workspace_id j)"
    using generateCustomerJourneys_workspace [OF u js] dw by (auto intro: resolves_onceI)
  ultimately show ?thesis
    by (simp add: referential_integrity_def d)
qed

theorem generate_referential_integrity_witness:
  "inj (uuidv4 (constant_host 0)) \<and> unit_interval (constant_host 0)
   \<and> (\<exists>d. generate (constant_host 0) two_workspaces = Some d
         \<and> map workspace_id (workspaces d) = [0, 2]
         \<and> map product_id (products d) = [4, 5]
         \<and> map product_workspace_id (products d) = [0, 2]
         \<and> map variant_product_id (product_variants d) = [4, 5]
         \<and> map post_id (social_posts d) = [8, 9]
         \<and> map post_workspace_id (social_posts d) = [0, 2]
         \<and> map binding_post_id (garment_bindings d) = [8, 9]
         \<and> map binding_product_id (garment_bindings d) = [4, 5]
         \<and> map order_workspace_id (orders d) = [0, 2]
         \<and> map journey_workspace_id (customer_journeys d) = [0, 2]
         \<and> referential_integrity d)"
proof -
  have u: "unit_interval (constant_host 0)" and i: "inj (uuidv4 (constant_host 0))"
    by (rule constant_host_contract; simp)+
  from run_two_workspaces obtain d where
    run: "generate (constant_host 0) two_workspaces = Some d"
    and v: "map workspace_id (workspaces d) = [0, 2]"
      "map product_id (products d) = [4, 5]"
      "map product_workspace_id (products d) = [0, 2]"
      "map variant_product_id (product_variants d) = [4, 5]"
      "map post_id (social_posts d) = [8, 9]"
      "map post_workspace_id (social_posts d) = [0, 2]"
      "map binding_post_id (garment_bindings d) = [8, 9]"
      "map binding_product_id (garment_bindings d) = [4, 5]"
      "map order_workspace_id (orders d) = [0, 2]"
      "map journey_workspace_id (customer_journeys d) = [0, 2]"
    by (elim exE conjE)
  have "referential_integrity d"
    using i u run by (rule generate_referential_integrity)
  with u i run v show ?thesis
    by simp
qed

section \<open>The funnel chain\<close>

text \<open>
  C2. For a trigger count that is a number and is not negative, and a rate configuration
  whose six ranges lie within \<open>[0, 1]\<close>, the record returned by \<open>generateFunnelMetrics\<close>
  satisfies \<open>total_purchases \<le> successful_generations \<le> total_photos_received \<le>
  total_photo_requests \<le> total_dm_conversations \<le> total_triggers\<close>, and so does every garment
  binding returned by \<open>generate\<close>, whose trigger count is a rounded share of a sum of
  impressions and whose rates are those of the configuration. The counts are those of the
  double arithmetic of the source.
\<close>

theorem funnel_chain_holds:
  assumes "unit_interval E"
  shows "(0 \<le> totalTriggers \<and> to_double (real_of_int totalTriggers) = real_of_int totalTriggers
            \<and> rates_within_unit rates
            \<longrightarrow> funnel_chain (fst (generateFunnelMetrics E totalTriggers rates r)))
         \<and> (generate E sc = Some d \<longrightarrow> (\<forall>b \<in> set (garment_bindings d). funnel_chain b))"
  using assms generateFunnelMetrics_chain [of E rates totalTriggers r]
    generate_bindings_chain [of E sc d]
  by blast

theorem funnel_chain_holds_witness:
  "unit_interval (constant_host 0.375) \<and> unit_interval (constant_host 0.5)
   \<and> rates_within_unit CONFIG_funnelRates
   \<and> (\<exists>m r'. generateFunnelMetrics (constant_host 0.375) 600 CONFIG_funnelRates 0 = (m, r')
         \<and> total_triggers m = 600 \<and> total_dm_conversations m = 25
         \<and> total_photo_requests m = 17 \<and> total_photos_received m = 7
         \<and> successful_generations m = 6 \<and> total_purchases m = 1
         \<and> funnel_chain m)
   \<and> (\<exists>m r'. generateFunnelMetrics (constant_host 0.375) (2 ^ 80) CONFIG_funnelRates 0 = (m, r')
         \<and> total_triggers m = 1208925819614629174706176
         \<and> total_dm_conversations m = 51379347333621735227392
         \<and> total_photo_requests m = 35644422212700078080000
         \<and> total_photos_received m = 15148879440397532659712
         \<and> successful_generations m = 12971228020840385740800
         \<and> total_purchases m = 1320937166028550176768
         \<and> funnel_chain m)
   \<and> (\<exists>d. generate (constant_host 0.5) two_days = Some d
         \<and> map impressions (post_metrics d) = [9343]
         \<and> map total_triggers (garment_bindings d) = [51]
         \<and> map total_dm_conversations (garment_bindings d) = [3]
         \<and> map total_photo_requests (garment_bindings d) = [2]
         \<and> map total_photos_received (garment_bindings d) = [1]
         \<and> map successful_generations (garment_bindings d) = [1]
         \<and> map total_purchases (garment_bindings d) = [0]
         \<and> list_all funnel_chain (garment_bindings d))"
proof -
  let ?H = "constant_host 0.375"
  have u: "unit_interval ?H" and u': "unit_interval (constant_host 0.5)"
    by (rule constant_host_contract; simp)+
  have w: "rates_within_unit CONFIG_funnelRates"
    by (rule CONFIG_funnelRates_within_unit)
  have "\<exists>m r'. generateFunnelMetrics ?H 600 CONFIG_funnelRates 0 = (m, r')
         \<and> total_triggers m = 600 \<and> total_dm_conversations m = 25
         \<and> total_photo_requests m = 17 \<and> total_photos_received m = 7
         \<and> successful_generations m = 6 \<and> total_purchases m = 1"
    by (simp add: funnel_defs constant_host_def utc_host_def cong: funnel_cong)
  then obtain m r' where
    a: "generateFunnelMetrics ?H 600 CONFIG_funnelRates 0 = (m, r')"
    and av: "total_triggers m = 600" "total_dm_conversations m = 25"
      "total_photo_requests m = 17" "total_photos_received m = 7"
      "successful_generations m = 6" "total_purchases m = 1"
    by (elim exE conjE)
  have ad: "to_double (real_of_int 600) = real_of_int 600"
    by (rule to_double_int) simp
  have "funnel_chain (fst (generateFunnelMetrics ?H 600 CONFIG_funnelRates 0))"
    using funnel_chain_holds [OF u, where totalTriggers = 600 and rates = CONFIG_funnelRates
        and r = 0, THEN conjunct1] ad w by simp
  then have ac: "funnel_chain m"
    unfolding a by simp
  have "\<exists>m r'. generateFunnelMetrics ?H (2 ^ 80) CONFIG_funnelRates 0 = (m, r')
         \<and> total_triggers m = 1208925819614629174706176
         \<and> total_dm_conversations m = 51379347333621735227392
         \<and> total_photo_requests m = 35644422212700078080000
         \<and> total_photos_received m = 15148879440397532659712
         \<and> successful_generations m = 12971228020840385740800
         \<and> total_purchases m = 1320937166028550176768"
    by (simp add: funnel_defs constant_host_def utc_host_def cong: funnel_cong)
  then obtain n s' where
    b: "generateFunnelMetrics ?H (2 ^ 80) CONFIG_funnelRates 0 = (n, s')"
    and bv: "total_triggers n = 1208925819614629174706176"
      "total_dm_conversations n = 51379347333621735227392"
      "total_photo_requests n = 35644422212700078080000"
      "total_photos_received n = 15148879440397532659712"
      "successful_generations n = 12971228020840385740800"
      "total_purchases n = 1320937166028550176768"
    by (elim exE conjE)
  have "to_double (2 powi 80) = 2 powi 80"
    by (rule to_double_power) simp
  then have bd: "to_double (real_of_int (2 ^ 80)) = real_of_int (2 ^ 80)"
    by simp
  have "funnel_chain (fst (generateFunnelMetrics ?H (2 ^ 80) CONFIG_funnelRates 0))"
    using funnel_chain_holds [OF u, where totalTriggers = "2 ^ 80" and rates = CONFIG_funnelRates
        and r = 0, THEN conjunct1] bd w by simp
  then have bc: "funnel_chain n"
    unfolding b by simp
  from run_two_days obtain d where
    run: "generate (constant_host 0.5) two_days = Some d"
    and v: "map impressions (post_metrics d) = [9343]"
      "map total_triggers (garment_bindings d) = [51]"
      "map total_dm_conversations (garment_bindings d) = [3]"
      "map total_photo_requests (garment_bindings d) = [2]"
      "map total_photos_received (garment_bindings d) = [1]"
      "map successful_generations (garment_bindings d) = [1]"
      "map total_purchases (garment_bindings d) = [0]"
    by (elim exE conjE)
  have "list_all funnel_chain (garment_bindings d)"
    using funnel_chain_holds [OF u', where sc = two_days and d = d, THEN conjunct2] run
    by (simp add: list_all_iff)
  then show ?thesis
    using u u' w a av ac b bv bc run v by simp
qed

section \<open>Cardinalities\<close>

text \<open>
  C4 (as stated) fails: on the same scale profile, a run whose random numbers are all 0 and a
  run whose random numbers are all 0.99 return different numbers of inventory records
  (0 and 1), post metrics (1 and 0), garment bindings (1 and 0), journey events (1 and 2) and
  daily aggregates (2 and 1).
\<close>

theorem generate_cardinalities_vary:
  "unit_interval (constant_host 0) \<and> unit_interval (constant_host 0.99)
   \<and> map_option cardinalities (generate (constant_host 0) tiny)
       = Some [1, 1, 1, 1, 0, 1, 1, 1, 1, 1, 1, 2, 1, 3]
   \<and> map_option cardinalities (generate (constant_host 0.99) tiny)
       = Some [1, 1, 1, 1, 1, 1, 0, 0, 1, 1, 2, 1, 1, 3]
   \<and> map_option cardinalities (generate (constant_host 0) tiny)
       \<noteq> map_option cardinalities (generate (constant_host 0.99) tiny)"
proof -
  have "unit_interval (constant_host 0)" "unit_interval (constant_host 0.99)"
    by (rule constant_host_contract; simp)+
  then show ?thesis
    unfolding run_tiny_low run_tiny_high by simp
qed

text \<open>
  C4 (as the code behaves). Two runs of \<open>generate\<close> on the same scale profile return the
  same number of workspaces, accounts, products, variants, posts, conversations, orders and
  demand forecasts, namely the numbers fixed by the profile; the other six collections are
  filled by loops whose bounds or guards are drawn at random.
\<close>

theorem generate_scale_cardinalities_agree:
  assumes "generate E sc = Some d" and "generate E' sc = Some d'"
  shows "scale_cardinalities d = scale_cardinalities d'
         \<and> scale_cardinalities d = expected_cardinalities sc"
  using assms [THEN generate_scale_cardinalities] by simp

theorem generate_scale_cardinalities_agree_witness:
  "\<exists>d d'. generate (constant_host 0) tiny = Some d
     \<and> generate (constant_host 0.99) tiny = Some d'
     \<and> cardinalities d \<noteq> cardinalities d'
     \<and> scale_cardinalities d = [1, 1, 1, 1, 1, 1, 1, 3]
     \<and> scale_cardinalities d' = [1, 1, 1, 1, 1, 1, 1, 3]"
proof -
  from run_tiny_low obtain d where
    d: "generate (constant_host 0) tiny = Some d"
      "cardinalities d = [1, 1, 1, 1, 0, 1, 1, 1, 1, 1, 1, 2, 1, 3]"
    by (auto simp: map_option_eq_Some)
  from run_tiny_high obtain d' where
    d': "generate (constant_host 0.99) tiny = Some d'"
      "cardinalities d' = [1, 1, 1, 1, 1, 1, 0, 0, 1, 1, 2, 1, 1, 3]"
    by (auto simp: map_option_eq_Some)
  have e: "expected_cardinalities tiny = [1, 1, 1, 1, 1, 1, 1, 3]"
    by (simp add: expected_cardinalities_def tiny_def)
  note a = generate_scale_cardinalities_agree [OF d(1) d'(1)]
  have "scale_cardinalities d = [1, 1, 1, 1, 1, 1, 1, 3]"
    using a [THEN conjunct2] e by simp
  moreover have "scale_cardinalities d' = [1, 1, 1, 1, 1, 1, 1, 3]"
    using a [THEN conjunct1] a [THEN conjunct2] e by simp
  moreover have "cardinalities d \<noteq> cardinalities d'"
    unfolding d(2) d'(2) by simp
  ultimately show ?thesis
    using d(1) d'(1) by simp
qed

end
